theory Spec2Isabelle
  imports Main "HOL-Library.Word" "HOL-Library.Multiset" "HOL-Library.Char_ord"
    "HOL-Library.List_Lexorder" "HOL-Library.Sublist"
begin

unbundle bit_operations_syntax

section \<open>Go primitives used by the ledger\<close>

text \<open>
  Go strings and byte slices are byte sequences: both are \<open>string\<close> here.  \<open>uint64\<close> is a
  64-bit word, so \<open>+\<close> wraps as in Go.  \<open>int\<close> and \<open>int64\<close> values that the code only copies and
  prints (indices, timestamps) are \<open>int\<close>; the nonce, which the code increments, is a 64-bit word
  read as a signed value.
\<close>

type_synonym u64 = "64 word"
type_synonym bytes = string

subsection \<open>\<open>fmt.Sprintf("%d", n)\<close>\<close>

function digits10 :: "int \<Rightarrow> string" where
  "digits10 n =
     (if n < 10 then [''0123456789'' ! nat n]
      else digits10 (n div 10) @ [''0123456789'' ! nat (n mod 10)])"
  by pat_completeness auto
termination
  by (relation "measure nat") auto

declare digits10.simps [simp del]

definition fmt_d :: "int \<Rightarrow> string" where
  "fmt_d i = (if i < 0 then CHR ''-'' # digits10 (- i) else digits10 i)"

subsection \<open>\<open>string(n)\<close> for an integer \<open>n\<close>: the UTF-8 encoding of the code point\<close>

text \<open>
  \<open>hashBlock\<close> writes \<open>string(b.Index)\<close>, \<open>string(b.Timestamp)\<close> and \<open>string(b.Nonce)\<close>.  In Go this
  conversion does not print the number: it yields the UTF-8 encoding of the code point with
  that number, and U+FFFD for a value that is no valid code point.
\<close>

definition utf8_encode :: "int \<Rightarrow> string" where
  "utf8_encode c =
     (if c < 0x80 then [char_of c]
      else if c < 0x800 then [char_of (0xC0 + c div 64), char_of (0x80 + c mod 64)]
      else if c < 0x10000 then
        [char_of (0xE0 + c div 4096), char_of (0x80 + c div 64 mod 64), char_of (0x80 + c mod 64)]
      else
        [char_of (0xF0 + c div 262144), char_of (0x80 + c div 4096 mod 64),
         char_of (0x80 + c div 64 mod 64), char_of (0x80 + c mod 64)])"

definition string_of_rune :: "int \<Rightarrow> string" where
  "string_of_rune i =
     (if i < 0 \<or> 0x10FFFF < i \<or> (0xD800 \<le> i \<and> i \<le> 0xDFFF) then utf8_encode 0xFFFD
      else utf8_encode i)"

subsection \<open>\<open>strings.Join\<close>\<close>

fun Join :: "string list \<Rightarrow> string \<Rightarrow> string" where
  "Join [] sep = []"
| "Join [x] sep = x"
| "Join (x # y # r) sep = x @ sep @ Join (y # r) sep"

subsection \<open>\<open>encoding/hex\<close>\<close>

definition hex_digit :: "nat \<Rightarrow> char" where
  "hex_digit n = ''0123456789abcdef'' ! n"

definition EncodeToString :: "bytes \<Rightarrow> string" where
  "EncodeToString bs = concat (map (\<lambda>c. [hex_digit (of_char c div 16), hex_digit (of_char c mod 16)]) bs)"

definition fromHexChar :: "char \<Rightarrow> nat option" where
  "fromHexChar c =
     (let n = of_char c :: nat in
      if 48 \<le> n \<and> n \<le> 57 then Some (n - 48)
      else if 97 \<le> n \<and> n \<le> 102 then Some (n - 97 + 10)
      else if 65 \<le> n \<and> n \<le> 70 then Some (n - 65 + 10)
      else None)"

text \<open>\<open>hex.DecodeString\<close>: \<open>None\<close> stands for its error (odd length or a byte that is no hex digit).\<close>

fun DecodeString :: "string \<Rightarrow> bytes option" where
  "DecodeString [] = Some []"
| "DecodeString [c] = None"
| "DecodeString (a # b # r) =
     (case (fromHexChar a, fromHexChar b) of
        (Some x, Some y) \<Rightarrow> map_option ((#) (char_of (16 * x + y))) (DecodeString r)
      | _ \<Rightarrow> None)"

subsection \<open>\<open>crypto/sha256\<close>\<close>

text \<open>
  SHA-256 as in FIPS 180-4.  A 32-bit word is an integer below \<open>2^32\<close>, with the reductions
  written out.
\<close>

definition rotr :: "nat \<Rightarrow> int \<Rightarrow> int" where
  "rotr n x = x div 2 ^ n + (x mod 2 ^ n) * 2 ^ (32 - n)"

definition add32 :: "int \<Rightarrow> int \<Rightarrow> int" where
  "add32 a b = (a + b) mod 4294967296"

text \<open>
  The round constants (the first 32 bits of the fractional parts of the cube roots of the
  first 64 primes) and the initial hash value (of the square roots of the first 8 primes), in
  decimal.
\<close>

definition K256 :: "int list" where
  "K256 =
    [1116352408, 1899447441, 3049323471, 3921009573, 961987163, 1508970993,
     2453635748, 2870763221, 3624381080, 310598401, 607225278, 1426881987,
     1925078388, 2162078206, 2614888103, 3248222580, 3835390401, 4022224774,
     264347078, 604807628, 770255983, 1249150122, 1555081692, 1996064986,
     2554220882, 2821834349, 2952996808, 3210313671, 3336571891, 3584528711,
     113926993, 338241895, 666307205, 773529912, 1294757372, 1396182291,
     1695183700, 1986661051, 2177026350, 2456956037, 2730485921, 2820302411,
     3259730800, 3345764771, 3516065817, 3600352804, 4094571909, 275423344,
     430227734, 506948616, 659060556, 883997877, 958139571, 1322822218,
     1537002063, 1747873779, 1955562222, 2024104815, 2227730452, 2361852424,
     2428436474, 2756734187, 3204031479, 3329325298]"

definition H256 :: "int list" where
  "H256 =
    [1779033703, 3144134277, 1013904242, 2773480762,
     1359893119, 2600822924, 528734635, 1541459225]"

definition ssig0 :: "int \<Rightarrow> int" where
  "ssig0 x = rotr 7 x XOR rotr 18 x XOR x div 2 ^ 3"

definition ssig1 :: "int \<Rightarrow> int" where
  "ssig1 x = rotr 17 x XOR rotr 19 x XOR x div 2 ^ 10"

definition bsig0 :: "int \<Rightarrow> int" where
  "bsig0 x = rotr 2 x XOR rotr 13 x XOR rotr 22 x"

definition bsig1 :: "int \<Rightarrow> int" where
  "bsig1 x = rotr 6 x XOR rotr 11 x XOR rotr 25 x"

text \<open>The message schedule: \<open>win\<close> holds the last sixteen words, newest first.\<close>

fun schedule :: "nat \<Rightarrow> int list \<Rightarrow> int list \<Rightarrow> int list" where
  "schedule 0 win acc = rev acc"
| "schedule (Suc n) win acc =
     (let w = (ssig1 (win ! 1) + win ! 6 + ssig0 (win ! 14) + win ! 15) mod 4294967296
      in schedule n (w # butlast win) (w # acc))"

fun sha_round :: "int list \<Rightarrow> int \<times> int \<Rightarrow> int list" where
  "sha_round [a, b, c, d, e, f, g, h] (k, w) =
     (let t1 = h + bsig1 e + ((e AND f) XOR ((4294967295 - e) AND g)) + k + w;
          t2 = bsig0 a + ((a AND b) XOR (a AND c) XOR (b AND c))
      in [(t1 + t2) mod 4294967296, a, b, c, (d + t1) mod 4294967296, e, f, g])"
| "sha_round s _ = s"

definition compress :: "int list \<Rightarrow> int list \<Rightarrow> int list" where
  "compress hs ws = map2 add32 hs (foldl sha_round hs (zip K256 (ws @ schedule 48 (rev ws) [])))"

fun be32 :: "int list \<Rightarrow> int list" where
  "be32 (a # b # c # d # r) = (((a * 256 + b) * 256 + c) * 256 + d) # be32 r"
| "be32 _ = []"

fun chunks16 :: "nat \<Rightarrow> int list \<Rightarrow> int list list" where
  "chunks16 0 ws = []"
| "chunks16 (Suc n) ws = take 16 ws # chunks16 n (drop 16 ws)"

definition sha_pad :: "int list \<Rightarrow> int list" where
  "sha_pad m =
     (let l = length m; z = (119 - l mod 64) mod 64; bits = int (8 * l)
      in m @ [128] @ replicate z 0 @
         map (\<lambda>i. bits div 256 ^ i mod 256) [7, 6, 5, 4, 3, 2, 1, 0])"

definition hex32 :: "int \<Rightarrow> string" where
  "hex32 w = map (\<lambda>i. hex_digit (nat (w div 16 ^ i mod 16))) [7, 6, 5, 4, 3, 2, 1, 0]"

definition Sum256 :: "bytes \<Rightarrow> int list" where
  "Sum256 m =
     (let p = sha_pad (map of_char m)
      in foldl compress H256 (chunks16 (length p div 64) (be32 p)))"

text \<open>\<open>hex.EncodeToString(h[:])\<close> of a digest \<open>h := sha256.Sum256(m)\<close>.\<close>

definition sha256_hex :: "bytes \<Rightarrow> string" where
  "sha256_hex m = concat (map hex32 (Sum256 m))"


section \<open>Data model (package \<open>blockchain\<close>)\<close>

text \<open>
  The structs \<open>UTXORef\<close>, \<open>UTXO\<close> and \<open>Block\<close> each have a field \<open>Index\<close>, and several have
  \<open>ID\<close>, \<open>Amount\<close> or \<open>Timestamp\<close>: the fields of \<open>UTXORef\<close>, \<open>UTXO\<close> and \<open>Block\<close> carry a suffix,
  those of \<open>Transaction\<close> keep the source's names.
\<close>

record UTXORef =
  TxID :: string
  Index_ref :: int

record UTXO =
  ID_utxo :: string
  Owner :: string
  Amount_utxo :: u64
  OriginTx :: string
  Index_utxo :: int
  Spent :: bool

record Transaction =
  ID :: string
  SenderID :: string
  ReceiverID :: string
  Amount :: u64
  Note :: string
  Timestamp :: int
  PubKey :: string
  Signature :: string
  Inputs :: "UTXORef list"
  Outputs :: "UTXO list"
  Type :: string

record Block =
  Index_block :: int
  Timestamp_block :: int
  Transactions :: "Transaction list"
  PreviousHash :: string
  Nonce :: "64 word"
  Hash :: string
  MerkleRoot :: string

text \<open>The Go map \<open>UTXOs map[string]UTXO\<close> is a partial function on its keys.\<close>

record Blockchain =
  Chain :: "Block list"
  Pending :: "Transaction list"
  UTXOs :: "string \<rightharpoonup> UTXO"
  DifficultyPref :: string

definition MiningReward :: u64 where
  "MiningReward = 50"

definition FaucetAmount :: u64 where
  "FaucetAmount = 1000"

text \<open>A panic ends the call without a result; an error is a returned value.\<close>

datatype panic = IndexOutOfRange | BadPublicKeyLength | SliceBoundsOutOfRange

datatype error =
    HexError
  | InvalidPrivateKeySize
  | InsufficientBalance
  | SenderNotFound
  | ReceiverNotFound
  | InvalidSignature
  | KeyMismatch
  | UTXONotFound string
  | UTXOSpent string
  | UTXONotOwned string
  | TotalMismatch u64 u64

datatype 'a outcome = Ok 'a | Err error | Panic panic

text \<open>\<open>fmt.Sprintf("%s:%d", txid, index)\<close>, the key of the UTXO map.\<close>

definition utxo_key :: "string \<Rightarrow> int \<Rightarrow> string" where
  "utxo_key txid idx = txid @ '':'' @ fmt_d idx"

text \<open>
  \<open>for _, ut := range m\<close> visits every key of the map once, in an order the Go runtime picks
  anew for each loop.  A function that ranges over the map takes that order as the list \<open>ks\<close>
  of keys; \<open>iteration_order m ks\<close> says that \<open>ks\<close> is such an order for \<open>m\<close>.
\<close>

definition iteration_order :: "('k \<rightharpoonup> 'v) \<Rightarrow> 'k list \<Rightarrow> bool" where
  "iteration_order m ks \<longleftrightarrow> distinct ks \<and> set ks = dom m"

definition range_values :: "('k \<rightharpoonup> 'v) \<Rightarrow> 'k list \<Rightarrow> 'v list" where
  "range_values m ks = List.map_filter m ks"

section \<open>The ledger (\<open>Blockchain\<close>)\<close>

subsection \<open>\<open>computeMerkle\<close>\<close>

text \<open>One pass of the inner loop: adjacent pairs are hashed, an odd last element is kept.\<close>

fun merkle_level :: "string list \<Rightarrow> string list" where
  "merkle_level (a # b # r) = sha256_hex (a @ b) # merkle_level r"
| "merkle_level [a] = [a]"
| "merkle_level [] = []"

text \<open>
  \<open>for len(hashes) > 1 { ... }; return hashes[0]\<close>.  The empty list is never reached: the
  function returns early on an empty transaction list.
\<close>

function merkle_reduce :: "string list \<Rightarrow> string" where
  "merkle_reduce hs =
     (if 1 < length hs then merkle_reduce (merkle_level hs)
      else case hs of [] \<Rightarrow> [] | h # _ \<Rightarrow> h)"
  by pat_completeness auto
termination
proof -
  have len: "length (merkle_level hs) = (length hs + 1) div 2" for hs
    by (induction hs rule: merkle_level.induct) auto
  show ?thesis
    by (relation "measure length") (auto simp: len)
qed

declare merkle_reduce.simps [simp del]

definition computeMerkle :: "Transaction list \<Rightarrow> string" where
  "computeMerkle txs =
     (if txs = [] then [] else merkle_reduce (map (\<lambda>t. sha256_hex (ID t)) txs))"

subsection \<open>\<open>hashBlock\<close>\<close>

definition hashBlock :: "Block \<Rightarrow> string" where
  "hashBlock b =
     sha256_hex (Join
       [string_of_rune (Index_block b),
        string_of_rune (Timestamp_block b),
        Join (sort (map ID (Transactions b))) '','',
        PreviousHash b,
        string_of_rune (sint (Nonce b))] ''|'')"

subsection \<open>\<open>NewBlockchain\<close>, \<open>AddPending\<close>, \<open>GetPending\<close>\<close>

definition genesis :: "int \<Rightarrow> Block" where
  "genesis now =
     (let g = \<lparr>Index_block = 0, Timestamp_block = now, Transactions = [], PreviousHash = ''0'',
               Nonce = 0, Hash = [], MerkleRoot = computeMerkle []\<rparr>
      in g\<lparr>Hash := hashBlock g\<rparr>)"

definition NewBlockchain :: "int \<Rightarrow> Blockchain" where
  "NewBlockchain now =
     \<lparr>Chain = [genesis now], Pending = [], UTXOs = Map.empty, DifficultyPref = ''00000''\<rparr>"

definition AddPending :: "Transaction \<Rightarrow> Blockchain \<Rightarrow> Blockchain" where
  "AddPending tx bc = bc\<lparr>Pending := Pending bc @ [tx]\<rparr>"

definition GetPending :: "Blockchain \<Rightarrow> Transaction list" where
  "GetPending bc = Pending bc"

subsection \<open>\<open>Mine\<close>\<close>

definition maxIterations :: nat where
  "maxIterations = 10000000"

text \<open>
  The nonce search.  The first argument counts the iterations that are left
  (\<open>maxIterations - i\<close>); \<open>break\<close> leaves the loop with the hash stored.
\<close>

fun mine_loop :: "string \<Rightarrow> nat \<Rightarrow> 64 word \<Rightarrow> Block \<Rightarrow> Block" where
  "mine_loop pref 0 nonce b = b"
| "mine_loop pref (Suc n) nonce b =
     (let b' = b\<lparr>Nonce := nonce\<rparr>; h = hashBlock b'
      in if prefix pref h then b'\<lparr>Hash := h\<rparr> else mine_loop pref n (nonce + 1) b')"

text \<open>The commit loops: inputs that are in the map are marked spent, outputs are stored.\<close>

definition mark_spent :: "(string \<rightharpoonup> UTXO) \<Rightarrow> UTXORef \<Rightarrow> (string \<rightharpoonup> UTXO)" where
  "mark_spent m r =
     (let key = utxo_key (TxID r) (Index_ref r)
      in case m key of Some ut \<Rightarrow> m(key \<mapsto> ut\<lparr>Spent := True\<rparr>) | None \<Rightarrow> m)"

fun store_outputs :: "string \<Rightarrow> int \<Rightarrow> UTXO list \<Rightarrow> (string \<rightharpoonup> UTXO) \<Rightarrow> (string \<rightharpoonup> UTXO)" where
  "store_outputs txid idx [] m = m"
| "store_outputs txid idx (out # outs) m =
     (let key = utxo_key txid idx
      in store_outputs txid (idx + 1) outs (m(key \<mapsto> out\<lparr>ID_utxo := key\<rparr>)))"

definition commit_tx :: "(string \<rightharpoonup> UTXO) \<Rightarrow> Transaction \<Rightarrow> (string \<rightharpoonup> UTXO)" where
  "commit_tx m tx = store_outputs (ID tx) 0 (Outputs tx) (foldl mark_spent m (Inputs tx))"

definition coinbase :: "int \<Rightarrow> int \<Rightarrow> string \<Rightarrow> Transaction" where
  "coinbase idx now minerWalletID =
     \<lparr>ID = ''coinbase-'' @ fmt_d idx @ ''-'' @ fmt_d now,
      SenderID = ''COINBASE'',
      ReceiverID = minerWalletID,
      Amount = MiningReward,
      Note = ''Mining reward for block #'' @ fmt_d idx,
      Timestamp = now,
      PubKey = ''SYSTEM'',
      Signature = ''COINBASE'',
      Inputs = [],
      Outputs = [\<lparr>ID_utxo = [], Owner = minerWalletID, Amount_utxo = MiningReward,
                  OriginTx = ''coinbase-'' @ fmt_d idx @ ''-'' @ fmt_d now,
                  Index_utxo = 0, Spent = False\<rparr>],
      Type = ''mining_reward''\<rparr>"

text \<open>
  \<open>now\<close> is \<open>time.Now().Unix()\<close>.  \<open>bc.Chain[len(bc.Chain)-1]\<close> panics on an empty chain, before
  anything is written.
\<close>

definition Mine :: "int \<Rightarrow> 64 word \<Rightarrow> string \<Rightarrow> Blockchain \<Rightarrow> (Block \<times> Blockchain) outcome" where
  "Mine now nonceStart minerWalletID bc =
     (if Chain bc = [] then Panic IndexOutOfRange
      else
        let idx = int (length (Chain bc));
            txs = coinbase idx now minerWalletID # Pending bc;
            b0 = \<lparr>Index_block = idx, Timestamp_block = now, Transactions = txs,
                  PreviousHash = Hash (last (Chain bc)), Nonce = 0, Hash = [],
                  MerkleRoot = computeMerkle txs\<rparr>;
            b1 = mine_loop (DifficultyPref bc) maxIterations nonceStart b0;
            b = (if Hash b1 = [] then b1\<lparr>Hash := hashBlock b1\<rparr> else b1)
        in Ok (b, bc\<lparr>Chain := Chain bc @ [b],
                      UTXOs := foldl commit_tx (UTXOs bc) (Transactions b),
                      Pending := []\<rparr>))"

subsection \<open>\<open>GetBalance\<close> and \<open>CreateFaucetUTXO\<close>\<close>

definition GetBalance :: "string list \<Rightarrow> Blockchain \<Rightarrow> string \<Rightarrow> u64" where
  "GetBalance ks bc walletID =
     sum_list (map Amount_utxo
       (filter (\<lambda>ut. Owner ut = walletID \<and> \<not> Spent ut) (range_values (UTXOs bc) ks)))"

definition CreateFaucetUTXO :: "int \<Rightarrow> string \<Rightarrow> Blockchain \<Rightarrow> UTXO \<times> Blockchain" where
  "CreateFaucetUTXO now walletID bc =
     (let utxoID = ''faucet-'' @ walletID @ ''-'' @ fmt_d now @ '':0'';
          faucetUTXO = \<lparr>ID_utxo = utxoID, Owner = walletID, Amount_utxo = FaucetAmount,
                        OriginTx = ''faucet-'' @ walletID @ ''-'' @ fmt_d now,
                        Index_utxo = 0, Spent = False\<rparr>
      in (faucetUTXO, bc\<lparr>UTXOs := (UTXOs bc)(utxoID \<mapsto> faucetUTXO)\<rparr>))"

text \<open>
  The ledger states the program can be in: \<open>NewBlockchain\<close> followed by any calls of the
  methods that write the state.
\<close>

inductive reachable :: "Blockchain \<Rightarrow> bool" where
  reach_new: "reachable (NewBlockchain now)"
| reach_pending: "reachable bc \<Longrightarrow> reachable (AddPending tx bc)"
| reach_mine: "reachable bc \<Longrightarrow> Mine now nonceStart miner bc = Ok (b, bc') \<Longrightarrow> reachable bc'"
| reach_faucet: "reachable bc \<Longrightarrow> reachable (snd (CreateFaucetUTXO now walletID bc))"


section \<open>Library functions taken as parameters\<close>

text \<open>
  The code calls into \<open>crypto/ed25519\<close>, \<open>encoding/json\<close>, \<open>sort\<close> and \<open>time\<close>.  They are the
  fields of \<open>Lib\<close>:
  \<^item> \<open>ed25519_Verify pub msg sig\<close> and \<open>ed25519_Sign priv msg\<close> for keys of the right length;
  \<^item> \<open>json_payload sender receiver amount timestamp note\<close>, the bytes \<open>json.Marshal\<close> returns in
    \<open>MarshalPayload\<close>;
  \<^item> \<open>sort_Slice\<close>, what \<open>sort.Slice\<close> with the comparison \<open>available[i].Amount > available[j].Amount\<close>
    makes of a slice;
  \<^item> \<open>interval_running now last\<close>, the test \<open>now.Sub(last).Hours() / 24 < ZakatIntervalDays\<close> of the
    levy, a floating-point computation on a \<open>time.Duration\<close>.
\<close>

record Lib =
  ed25519_Verify :: "bytes \<Rightarrow> bytes \<Rightarrow> bytes \<Rightarrow> bool"
  ed25519_Sign :: "bytes \<Rightarrow> bytes \<Rightarrow> bytes"
  json_payload :: "string \<Rightarrow> string \<Rightarrow> u64 \<Rightarrow> int \<Rightarrow> string \<Rightarrow> bytes"
  sort_Slice :: "UTXO list \<Rightarrow> UTXO list"
  interval_running :: "int \<Rightarrow> int \<Rightarrow> bool"

text \<open>
  The contract of \<open>sort.Slice\<close>: the result is a permutation of the slice in which no element
  is less than one before it.  The sort is not stable.
\<close>

abbreviation descending :: "UTXO list \<Rightarrow> bool" where
  "descending xs \<equiv> sorted_wrt (\<lambda>a b. Amount_utxo b \<le> Amount_utxo a) xs"

definition sort_Slice_contract :: "(UTXO list \<Rightarrow> UTXO list) \<Rightarrow> bool" where
  "sort_Slice_contract srt \<longleftrightarrow> (\<forall>xs. mset (srt xs) = mset xs \<and> descending (srt xs))"

text \<open>
  On a slice of at most twelve elements \<open>sort.Slice\<close> runs an insertion sort: each element
  moves left while it is less than its left neighbour, that is, while its amount is greater.
\<close>

fun insert_left :: "UTXO \<Rightarrow> UTXO list \<Rightarrow> UTXO list" where
  "insert_left x [] = [x]"
| "insert_left x (y # ys) =
     (if Amount_utxo y < Amount_utxo x then x # y # ys else y # insert_left x ys)"

definition insertionSort :: "UTXO list \<Rightarrow> UTXO list" where
  "insertionSort xs = foldl (\<lambda>acc x. insert_left x acc) [] xs"

text \<open>What a call reads from the runtime: the order of its \<open>range\<close> loop and the clock.\<close>

record Obs =
  range_UTXOs :: "string list"
  UnixNano :: int
  Unix :: int

section \<open>Package \<open>wallet\<close>\<close>

record Wallet =
  WalletID :: string
  PublicKey :: string
  PrivateKey :: string
  FullName :: string
  Email :: string
  CNIC :: string

definition WalletIDFromPub :: "string \<Rightarrow> string option" where
  "WalletIDFromPub pubHex = map_option (\<lambda>b. take 40 (sha256_hex b)) (DecodeString pubHex)"

text \<open>\<open>ed25519.Verify\<close> panics when the public key is not 32 bytes long.\<close>

definition VerifySignature :: "Lib \<Rightarrow> string \<Rightarrow> bytes \<Rightarrow> string \<Rightarrow> bool outcome" where
  "VerifySignature L pubHex message sigHex =
     (case DecodeString pubHex of
        None \<Rightarrow> Err HexError
      | Some pub \<Rightarrow>
          (case DecodeString sigHex of
             None \<Rightarrow> Err HexError
           | Some sig \<Rightarrow>
               if length pub \<noteq> 32 then Panic BadPublicKeyLength
               else Ok (ed25519_Verify L pub message sig)))"

definition SignWithPriv :: "Lib \<Rightarrow> string \<Rightarrow> bytes \<Rightarrow> string outcome" where
  "SignWithPriv L privHex payload =
     (case DecodeString privHex of
        None \<Rightarrow> Err HexError
      | Some priv \<Rightarrow>
          if length priv \<noteq> 64 then Err InvalidPrivateKeySize
          else Ok (EncodeToString (ed25519_Sign L priv payload)))"

definition MarshalPayload :: "Lib \<Rightarrow> string \<Rightarrow> string \<Rightarrow> u64 \<Rightarrow> int \<Rightarrow> string \<Rightarrow> bytes" where
  "MarshalPayload L sender receiver amount timestamp note =
     json_payload L sender receiver amount timestamp note"

section \<open>\<open>TransactionService\<close>\<close>

subsection \<open>\<open>SelectUTXOs\<close>\<close>

text \<open>The greedy loop over the sorted slice, with \<open>selected\<close> and the running \<open>total\<close> (here \<open>tot\<close>) as they grow.\<close>

fun select_loop :: "u64 \<Rightarrow> UTXO list \<Rightarrow> UTXO list \<Rightarrow> u64 \<Rightarrow> UTXO list \<times> u64" where
  "select_loop amount [] selected tot = (selected, tot)"
| "select_loop amount (utxo # rest) selected tot =
     (if amount \<le> tot then (selected, tot)
      else select_loop amount rest (selected @ [utxo]) (tot + Amount_utxo utxo))"

definition available_utxos :: "string list \<Rightarrow> Blockchain \<Rightarrow> string \<Rightarrow> UTXO list" where
  "available_utxos ks bc walletID =
     filter (\<lambda>utxo. Owner utxo = walletID \<and> \<not> Spent utxo) (range_values (UTXOs bc) ks)"

definition SelectUTXOs ::
  "Lib \<Rightarrow> string list \<Rightarrow> Blockchain \<Rightarrow> string \<Rightarrow> u64 \<Rightarrow> (UTXO list \<times> u64) outcome" where
  "SelectUTXOs L ks bc walletID amount =
     (let available = sort_Slice L (available_utxos ks bc walletID);
          (selected, tot) = select_loop amount available [] 0
      in if tot < amount then Err InsufficientBalance else Ok (selected, tot))"

subsection \<open>\<open>CreateTransaction\<close> and \<open>CreateZakatTransaction\<close>\<close>

definition utxo_ref :: "UTXO \<Rightarrow> UTXORef" where
  "utxo_ref utxo = \<lparr>TxID = OriginTx utxo, Index_ref = Index_utxo utxo\<rparr>"

definition new_output :: "string \<Rightarrow> u64 \<Rightarrow> string \<Rightarrow> int \<Rightarrow> UTXO" where
  "new_output owner amount txID idx =
     \<lparr>ID_utxo = [], Owner = owner, Amount_utxo = amount, OriginTx = txID, Index_utxo = idx,
      Spent = False\<rparr>"

text \<open>The outputs both constructors build: the payment, then the change if there is any.\<close>

definition build_outputs :: "string \<Rightarrow> string \<Rightarrow> u64 \<Rightarrow> u64 \<Rightarrow> string \<Rightarrow> UTXO list" where
  "build_outputs receiver sender amount tot txID =
     (let change = tot - amount
      in new_output receiver amount txID 0 #
         (if 0 < change then [new_output sender change txID 1] else []))"

definition CreateTransaction ::
  "Lib \<Rightarrow> Obs \<Rightarrow> (string \<rightharpoonup> Wallet) \<Rightarrow> Blockchain \<Rightarrow> string \<Rightarrow> string \<Rightarrow> u64 \<Rightarrow> string \<Rightarrow>
     string \<Rightarrow> string \<Rightarrow> Transaction outcome" where
  "CreateTransaction L obs ws bc senderID receiverID amount note pubKey privKey =
     (if ws senderID = None then Err SenderNotFound
      else if ws receiverID = None then Err ReceiverNotFound
      else
        (case SelectUTXOs L (range_UTXOs obs) bc senderID amount of
           Err e \<Rightarrow> Err e
         | Panic p \<Rightarrow> Panic p
         | Ok (selectedUTXOs, tot) \<Rightarrow>
             (let txID = ''tx-'' @ fmt_d (UnixNano obs);
                  timestamp = Unix obs;
                  payload = MarshalPayload L senderID receiverID amount timestamp note
              in (case SignWithPriv L privKey payload of
                    Err e \<Rightarrow> Err e
                  | Panic p \<Rightarrow> Panic p
                  | Ok signature \<Rightarrow>
                      Ok \<lparr>ID = txID, SenderID = senderID, ReceiverID = receiverID,
                          Amount = amount, Note = note, Timestamp = timestamp,
                          PubKey = pubKey, Signature = signature,
                          Inputs = map utxo_ref selectedUTXOs,
                          Outputs = build_outputs receiverID senderID amount tot txID,
                          Type = ''transfer''\<rparr>))))"

definition CreateZakatTransaction ::
  "Lib \<Rightarrow> Obs \<Rightarrow> Blockchain \<Rightarrow> string \<Rightarrow> u64 \<Rightarrow> Transaction outcome" where
  "CreateZakatTransaction L obs bc walletID zakatAmount =
     (case SelectUTXOs L (range_UTXOs obs) bc walletID zakatAmount of
        Err e \<Rightarrow> Err e
      | Panic p \<Rightarrow> Panic p
      | Ok (selectedUTXOs, tot) \<Rightarrow>
          let txID = ''zakat-'' @ fmt_d (UnixNano obs)
          in Ok \<lparr>ID = txID, SenderID = walletID, ReceiverID = ''ZAKAT_POOL'',
                 Amount = zakatAmount, Note = ''Monthly Zakat Deduction (2.5%)'',
                 Timestamp = Unix obs, PubKey = ''system'', Signature = ''system'',
                 Inputs = map utxo_ref selectedUTXOs,
                 Outputs = build_outputs ''ZAKAT_POOL'' walletID zakatAmount tot txID,
                 Type = ''zakat_deduction''\<rparr>)"

subsection \<open>\<open>ValidateTransaction\<close>\<close>

fun check_inputs :: "(string \<rightharpoonup> UTXO) \<Rightarrow> string \<Rightarrow> UTXORef list \<Rightarrow> unit outcome" where
  "check_inputs m sender [] = Ok ()"
| "check_inputs m sender (input # rest) =
     (let utxoKey = utxo_key (TxID input) (Index_ref input)
      in case m utxoKey of
           None \<Rightarrow> Err (UTXONotFound utxoKey)
         | Some utxo \<Rightarrow>
             if Spent utxo then Err (UTXOSpent utxoKey)
             else if Owner utxo \<noteq> sender then Err (UTXONotOwned utxoKey)
             else check_inputs m sender rest)"

text \<open>\<open>inputTotal += utxo.Amount\<close>, where a key that is not in the map reads as the zero UTXO.\<close>

definition input_amount :: "(string \<rightharpoonup> UTXO) \<Rightarrow> UTXORef \<Rightarrow> u64" where
  "input_amount m input =
     (case m (utxo_key (TxID input) (Index_ref input)) of None \<Rightarrow> 0 | Some utxo \<Rightarrow> Amount_utxo utxo)"

definition inputTotal :: "(string \<rightharpoonup> UTXO) \<Rightarrow> UTXORef list \<Rightarrow> u64" where
  "inputTotal m inputs = sum_list (map (input_amount m) inputs)"

definition outputTotal :: "UTXO list \<Rightarrow> u64" where
  "outputTotal outputs = sum_list (map Amount_utxo outputs)"

text \<open>The checks of \<open>ValidateTransaction\<close> that read the UTXO map, after the signature checks.\<close>

definition validate_inputs :: "Blockchain \<Rightarrow> Transaction \<Rightarrow> unit outcome" where
  "validate_inputs bc tx =
     (case check_inputs (UTXOs bc) (SenderID tx) (Inputs tx) of
        Err e \<Rightarrow> Err e
      | Panic p \<Rightarrow> Panic p
      | Ok _ \<Rightarrow>
          if inputTotal (UTXOs bc) (Inputs tx) \<noteq> outputTotal (Outputs tx)
          then Err (TotalMismatch (inputTotal (UTXOs bc) (Inputs tx)) (outputTotal (Outputs tx)))
          else Ok ())"

definition ValidateTransaction :: "Lib \<Rightarrow> Blockchain \<Rightarrow> Transaction \<Rightarrow> unit outcome" where
  "ValidateTransaction L bc tx =
     (let payload = MarshalPayload L (SenderID tx) (ReceiverID tx) (Amount tx) (Timestamp tx) (Note tx)
      in (case VerifySignature L (PubKey tx) payload (Signature tx) of
            Err e \<Rightarrow> Err e
          | Panic p \<Rightarrow> Panic p
          | Ok valid \<Rightarrow>
              if \<not> valid then Err InvalidSignature
              else
                (case WalletIDFromPub (PubKey tx) of
                   None \<Rightarrow> Err HexError
                 | Some expectedWalletID \<Rightarrow>
                     if expectedWalletID \<noteq> SenderID tx then Err KeyMismatch
                     else validate_inputs bc tx)))"

section \<open>\<open>ZakatService\<close>\<close>

subsection \<open>The levied amount: \<open>uint64(float64(balance) * blockchain.ZakatRate)\<close>\<close>

text \<open>
  Modelled from the spec: the constants \<open>blockchain.ZakatNisab\<close> and \<open>blockchain.ZakatRate\<close> are
  not in the source files.  The spec gives the threshold 500 and the rate 2.5%, as does the
  configuration guide (\<open>ZakatNisab = 500\<close>, \<open>ZakatRate = 0.025\<close>).
\<close>

definition ZakatNisab :: u64 where
  "ZakatNisab = 500"

text \<open>
  The product is computed in IEEE-754 binary64.  A positive finite binary64 value has 53
  significant bits; \<open>round_to_53 n\<close> is the integer with at most 53 significant bits nearest
  to the positive integer \<open>n\<close>, ties to even.  The constant \<open>0.025\<close> converts to the binary64
  value \<open>3602879701896397 / 2^57\<close>.  Scaling by a power of two commutes with rounding, so the
  rounded product of the integer \<open>x\<close> and the rate is \<open>round_to_53 (x * 3602879701896397) / 2^57\<close>,
  and the conversion to \<open>uint64\<close> drops the fraction.
\<close>

function bit_length :: "int \<Rightarrow> nat" where
  "bit_length n = (if n \<le> 0 then 0 else Suc (bit_length (n div 2)))"
  by pat_completeness auto
termination
  by (relation "measure nat") auto

declare bit_length.simps [simp del]

definition round_to_53 :: "int \<Rightarrow> int" where
  "round_to_53 n =
     (if n < 2 ^ 53 then n
      else
        let s = bit_length n - 53; q = n div 2 ^ s; r = n mod 2 ^ s
        in (if 2 * r < 2 ^ s \<or> (2 * r = 2 ^ s \<and> even q) then q else q + 1) * 2 ^ s)"

definition float64_of_u64 :: "u64 \<Rightarrow> int" where
  "float64_of_u64 x = round_to_53 (uint x)"

definition ZakatRate_mantissa :: int where
  "ZakatRate_mantissa = 3602879701896397"

definition zakatAmount :: "u64 \<Rightarrow> u64" where
  "zakatAmount balance =
     word_of_int (round_to_53 (float64_of_u64 balance * ZakatRate_mantissa) div 2 ^ 57)"

subsection \<open>\<open>ProcessMonthlyZakat\<close>\<close>

record ZakatService =
  lastProcessed :: "string \<rightharpoonup> int"
  nisabThreshold :: u64

definition NewZakatService :: ZakatService where
  "NewZakatService = \<lparr>lastProcessed = Map.empty, nisabThreshold = ZakatNisab\<rparr>"

text \<open>
  One round of the loop over the wallets: the wallet, the order of the \<open>range\<close> loop inside
  \<open>GetBalance\<close>, and what \<open>CreateZakatTransaction\<close> reads from the runtime.
\<close>

record Visit =
  wallet :: Wallet
  range_balance :: "string list"
  obs :: Obs

text \<open>The log lines print \<open>w.WalletID[:16]\<close>, which panics on an id shorter than 16 bytes.\<close>

definition log_id16 :: "string \<Rightarrow> 'a \<Rightarrow> 'a outcome" where
  "log_id16 walletID x = (if length walletID < 16 then Panic SliceBoundsOutOfRange else Ok x)"

text \<open>
  The loop body, on the ledger and the service.  Writes to the database are left out: they
  are best effort and touch neither.
\<close>

definition process_wallet ::
  "Lib \<Rightarrow> int \<Rightarrow> Blockchain \<times> ZakatService \<Rightarrow> Visit \<Rightarrow> (Blockchain \<times> ZakatService) outcome" where
  "process_wallet L now st v =
     (let bc = fst st; zs = snd st; wid = WalletID (wallet v)
      in if wid = ''ZAKAT_POOL'' \<or> wid = ''COINBASE'' then Ok st
         else if (case lastProcessed zs wid of
                    Some lastTime \<Rightarrow> interval_running L now lastTime
                  | None \<Rightarrow> False) then Ok st
         else
           (let balance = GetBalance (range_balance v) bc wid
            in if balance < nisabThreshold zs then log_id16 wid st
               else if zakatAmount balance = 0 then Ok st
               else
                 (case CreateZakatTransaction L (obs v) bc wid (zakatAmount balance) of
                    Err e \<Rightarrow> log_id16 wid st
                  | Panic p \<Rightarrow> Panic p
                  | Ok tx \<Rightarrow>
                      log_id16 wid
                        (AddPending tx bc,
                         zs\<lparr>lastProcessed := (lastProcessed zs)(wid \<mapsto> now)\<rparr>))))"

fun zakat_loop ::
  "Lib \<Rightarrow> int \<Rightarrow> Visit list \<Rightarrow> Blockchain \<times> ZakatService \<Rightarrow> (Blockchain \<times> ZakatService) outcome" where
  "zakat_loop L now [] st = Ok st"
| "zakat_loop L now (v # vs) st =
     (case process_wallet L now st v of
        Ok st' \<Rightarrow> zakat_loop L now vs st'
      | Err e \<Rightarrow> Err e
      | Panic p \<Rightarrow> Panic p)"

text \<open>\<open>mineTime\<close> is the clock \<open>Mine\<close> reads at the end of the tick.\<close>

definition ProcessMonthlyZakat ::
  "Lib \<Rightarrow> int \<Rightarrow> int \<Rightarrow> Visit list \<Rightarrow> Blockchain \<times> ZakatService \<Rightarrow>
     (Blockchain \<times> ZakatService) outcome" where
  "ProcessMonthlyZakat L now mineTime visits st =
     (case zakat_loop L now visits st of
        Err e \<Rightarrow> Err e
      | Panic p \<Rightarrow> Panic p
      | Ok (bc, zs) \<Rightarrow>
          if 0 < length (GetPending bc) then
            (case Mine mineTime 0 ''ZAKAT_POOL'' bc of
               Err e \<Rightarrow> Err e
             | Panic p \<Rightarrow> Panic p
             | Ok (b, bc') \<Rightarrow> Ok (bc', zs))
          else Ok (bc, zs))"

text \<open>Every transaction the ledger holds: those of the blocks, then the pending ones.\<close>

definition ledger_transactions :: "Blockchain \<Rightarrow> Transaction list" where
  "ledger_transactions bc = concat (map Transactions (Chain bc)) @ Pending bc"

section \<open>Auxiliary definitions for the proofs\<close>

text \<open>What one entry of the UTXO map adds to the balance of \<open>w\<close>.\<close>

definition balance_term :: "string \<Rightarrow> UTXO option \<Rightarrow> u64" where
  "balance_term w x =
     (case x of
        Some ut \<Rightarrow> if Owner ut = w \<and> \<not> Spent ut then Amount_utxo ut else 0
      | None \<Rightarrow> 0)"

text \<open>The block \<open>Mine\<close> builds on a chain that is not empty.\<close>

definition mined_block :: "int \<Rightarrow> 64 word \<Rightarrow> string \<Rightarrow> Blockchain \<Rightarrow> Block" where
  "mined_block now nonceStart miner bc =
     (let idx = int (length (Chain bc));
          txs = coinbase idx now miner # Pending bc;
          b0 = \<lparr>Index_block = idx, Timestamp_block = now, Transactions = txs,
                PreviousHash = Hash (last (Chain bc)), Nonce = 0, Hash = [],
                MerkleRoot = computeMerkle txs\<rparr>;
          b1 = mine_loop (DifficultyPref bc) maxIterations nonceStart b0
      in if Hash b1 = [] then b1\<lparr>Hash := hashBlock b1\<rparr> else b1)"

text \<open>A new ledger after one faucet call for wallet \<open>A\<close>, and after a second one in the same second.\<close>

definition faucet_once :: Blockchain where
  "faucet_once = snd (CreateFaucetUTXO 0 ''A'' (NewBlockchain 0))"

definition faucet_twice :: Blockchain where
  "faucet_twice = snd (CreateFaucetUTXO 0 ''A'' faucet_once)"

text \<open>
  A library instance for the examples: the insertion sort that \<open>sort.Slice\<close> runs on short
  slices, and stand-ins for the other functions, on which the examples do not depend.
\<close>

definition example_lib :: Lib where
  "example_lib =
     \<lparr>ed25519_Verify = (\<lambda>pub msg sig. False),
      ed25519_Sign = (\<lambda>priv msg. []),
      json_payload = (\<lambda>sender receiver amount timestamp note. []),
      sort_Slice = insertionSort,
      interval_running = (\<lambda>now lastTime. False)\<rparr>"

text \<open>Wallet \<open>A\<close> with unspent outputs of 70, 30 and 10; wallets \<open>A\<close> and \<open>B\<close> are registered.\<close>

definition utxo_of_A :: "string \<Rightarrow> u64 \<Rightarrow> UTXO" where
  "utxo_of_A txid a =
     \<lparr>ID_utxo = txid @ '':0'', Owner = ''A'', Amount_utxo = a, OriginTx = txid, Index_utxo = 0,
      Spent = False\<rparr>"

definition ledger_70_30_10 :: Blockchain where
  "ledger_70_30_10 =
     \<lparr>Chain = [genesis 0], Pending = [],
      UTXOs = [''t1:0'' \<mapsto> utxo_of_A ''t1'' 70, ''t2:0'' \<mapsto> utxo_of_A ''t2'' 30,
               ''t3:0'' \<mapsto> utxo_of_A ''t3'' 10],
      DifficultyPref = ''00000''\<rparr>"

definition wallet_named :: "string \<Rightarrow> Wallet" where
  "wallet_named n =
     \<lparr>WalletID = n, PublicKey = [], PrivateKey = [], FullName = [], Email = [], CNIC = []\<rparr>"

definition wallets_A_B :: "string \<rightharpoonup> Wallet" where
  "wallets_A_B = [''A'' \<mapsto> wallet_named ''A'', ''B'' \<mapsto> wallet_named ''B'']"

definition obs_312 :: Obs where
  "obs_312 = \<lparr>range_UTXOs = [''t3:0'', ''t1:0'', ''t2:0''], UnixNano = 5, Unix = 0\<rparr>"

text \<open>A private key of 64 zero bytes, in hex.\<close>

definition zero_key :: string where
  "zero_key = concat (replicate 8 ''0000000000000000'')"

text \<open>A new ledger after faucet calls for wallet \<open>A\<close> in two different seconds.\<close>

definition faucet_two_seconds :: Blockchain where
  "faucet_two_seconds = snd (CreateFaucetUTXO 1 ''A'' faucet_once)"

text \<open>
  A round of the levy loop skips a system wallet and a wallet whose interval is still
  running, before it reads the balance.
\<close>

definition skipped :: "Lib \<Rightarrow> int \<Rightarrow> ZakatService \<Rightarrow> string \<Rightarrow> bool" where
  "skipped L now zs wid \<longleftrightarrow>
     wid = ''ZAKAT_POOL'' \<or> wid = ''COINBASE'' \<or>
     (\<exists>t. lastProcessed zs wid = Some t \<and> interval_running L now t)"

text \<open>The levies of wallet \<open>w\<close> among a list of transactions.\<close>

abbreviation (input) levy_of :: "string \<Rightarrow> Transaction \<Rightarrow> bool" where
  "levy_of w \<equiv> (\<lambda>tx. SenderID tx = w \<and> Type tx = ''zakat_deduction'')"

text \<open>
  \<open>untouched w st st'\<close>: from \<open>st\<close> to \<open>st'\<close> only the pending pool grew, by levies of other wallets,
  and the time of the last levy of \<open>w\<close> is the same.
\<close>

definition untouched :: "string \<Rightarrow> Blockchain \<times> ZakatService \<Rightarrow> Blockchain \<times> ZakatService \<Rightarrow> bool" where
  "untouched w st st' \<longleftrightarrow>
     Chain (fst st') = Chain (fst st) \<and> UTXOs (fst st') = UTXOs (fst st) \<and>
     nisabThreshold (snd st') = nisabThreshold (snd st) \<and>
     lastProcessed (snd st') w = lastProcessed (snd st) w \<and>
     (\<exists>new. Pending (fst st') = Pending (fst st) @ new \<and>
        list_all (\<lambda>tx. SenderID tx \<noteq> w \<and> Type tx = ''zakat_deduction'') new)"

text \<open>A wallet with one unspent output of 400, and its round of the levy loop.\<close>

definition wallet_W :: string where
  "wallet_W = ''0123456789abcdef0123456789abcdef01234567''"

definition ledger_with :: "u64 list \<Rightarrow> Blockchain" where
  "ledger_with amounts =
     \<lparr>Chain = [genesis 0], Pending = [],
      UTXOs = map_of (map (\<lambda>(i, a). (utxo_key (''t'' @ fmt_d (int i)) 0,
                 \<lparr>ID_utxo = utxo_key (''t'' @ fmt_d (int i)) 0, Owner = wallet_W, Amount_utxo = a,
                  OriginTx = ''t'' @ fmt_d (int i), Index_utxo = 0, Spent = False\<rparr>))
               (enumerate 0 amounts)),
      DifficultyPref = ''00000''\<rparr>"

definition visit_W :: "string list \<Rightarrow> Visit" where
  "visit_W ks =
     \<lparr>wallet = wallet_named wallet_W, range_balance = ks,
      obs = \<lparr>range_UTXOs = ks, UnixNano = 7, Unix = 0\<rparr>\<rparr>"

text \<open>The levy built for wallet \<open>W\<close> when it owns two unspent outputs of 500.\<close>

definition levy_500_500 :: Transaction where
  "levy_500_500 =
     \<lparr>ID = ''zakat-7'', SenderID = wallet_W, ReceiverID = ''ZAKAT_POOL'', Amount = 25,
      Note = ''Monthly Zakat Deduction (2.5%)'', Timestamp = 0, PubKey = ''system'',
      Signature = ''system'', Inputs = [\<lparr>TxID = ''t0'', Index_ref = 0\<rparr>],
      Outputs = [\<lparr>ID_utxo = [], Owner = ''ZAKAT_POOL'', Amount_utxo = 25, OriginTx = ''zakat-7'',
                  Index_utxo = 0, Spent = False\<rparr>,
                 \<lparr>ID_utxo = [], Owner = wallet_W, Amount_utxo = 475, OriginTx = ''zakat-7'',
                  Index_utxo = 1, Spent = False\<rparr>],
      Type = ''zakat_deduction''\<rparr>"

text \<open>A transaction with only its id set, and a block with only its transactions set.\<close>

definition tx_with_id :: "string \<Rightarrow> Transaction" where
  "tx_with_id i =
     \<lparr>ID = i, SenderID = [], ReceiverID = [], Amount = 0, Note = [], Timestamp = 0, PubKey = [],
      Signature = [], Inputs = [], Outputs = [], Type = []\<rparr>"

definition block_with :: "Transaction list \<Rightarrow> Block" where
  "block_with txs =
     \<lparr>Index_block = 1, Timestamp_block = 0, Transactions = txs, PreviousHash = ''0'', Nonce = 0,
      Hash = [], MerkleRoot = computeMerkle txs\<rparr>"

text \<open>
  A transfer from the wallet of a public key, with no inputs and two outputs of \<open>2^63\<close> each.
\<close>

definition overflow_tx :: "string \<Rightarrow> string \<Rightarrow> Transaction" where
  "overflow_tx pubHex sigHex =
     \<lparr>ID = ''tx-1'',
      SenderID = (case WalletIDFromPub pubHex of Some walletID \<Rightarrow> walletID | None \<Rightarrow> []),
      ReceiverID = ''B'', Amount = 9223372036854775808, Note = [], Timestamp = 0,
      PubKey = pubHex, Signature = sigHex, Inputs = [],
      Outputs = [new_output ''B'' 9223372036854775808 ''tx-1'' 0,
                 new_output ''B'' 9223372036854775808 ''tx-1'' 1],
      Type = ''transfer''\<rparr>"

text \<open>
  Wallet \<open>A\<close> holds the one output it got from the faucet and spends it twice, 600 to \<open>B\<close> and
  600 to \<open>C\<close>; both transfers are in the pending pool when the next block is mined.
\<close>

definition wallets_A_B_C :: "string \<rightharpoonup> Wallet" where
  "wallets_A_B_C =
     [''A'' \<mapsto> wallet_named ''A'', ''B'' \<mapsto> wallet_named ''B'', ''C'' \<mapsto> wallet_named ''C'']"

definition spend_of_A :: "string \<Rightarrow> string \<Rightarrow> Transaction" where
  "spend_of_A txID receiver =
     \<lparr>ID = txID, SenderID = ''A'', ReceiverID = receiver, Amount = 600, Note = [], Timestamp = 0,
      PubKey = [], Signature = [],
      Inputs = [\<lparr>TxID = ''faucet-A-0'', Index_ref = 0\<rparr>],
      Outputs = [new_output receiver 600 txID 0, new_output ''A'' 400 txID 1],
      Type = ''transfer''\<rparr>"

definition double_spend_pool :: Blockchain where
  "double_spend_pool =
     AddPending (spend_of_A ''tx-2'' ''C'') (AddPending (spend_of_A ''tx-1'' ''B'') faucet_once)"

definition double_spend_ledger :: Blockchain where
  "double_spend_ledger =
     (case Mine 0 0 ''M'' double_spend_pool of Ok (b, bc') \<Rightarrow> bc' | _ \<Rightarrow> double_spend_pool)"

definition double_spend_keys :: "string list" where
  "double_spend_keys =
     [''faucet-A-0:0'', ''coinbase-1-0:0'', ''tx-1:0'', ''tx-1:1'', ''tx-2:0'', ''tx-2:1'']"

text \<open>
  Wallet \<open>A\<close> has spent the output it got from the faucet: its transfer of 600 to \<open>B\<close> is mined.
\<close>

definition spent_faucet_ledger :: Blockchain where
  "spent_faucet_ledger =
     (case Mine 0 0 ''M'' (AddPending (spend_of_A ''tx-1'' ''B'') faucet_once) of
        Ok (b, bc') \<Rightarrow> bc'
      | _ \<Rightarrow> faucet_once)"

definition spent_faucet_keys :: "string list" where
  "spent_faucet_keys = [''faucet-A-0:0'', ''coinbase-1-0:0'', ''tx-1:0'', ''tx-1:1'']"

section \<open>Properties\<close>

subsection \<open>Ranging over a map\<close>

lemma range_values_map:
  "set ks \<subseteq> dom m \<Longrightarrow> range_values m ks = map (\<lambda>k. the (m k)) ks"
  unfolding range_values_def
  by (induction ks) auto

lemma sum_list_map_filter_if:
  fixes f :: "'a \<Rightarrow> u64"
  shows "sum_list (map f (filter P xs)) = sum_list (map (\<lambda>x. if P x then f x else 0) xs)"
  by (induction xs) auto

text \<open>The balance is a sum over the keys of the map: the order of the loop does not matter.\<close>

lemma GetBalance_sum:
  assumes "iteration_order (UTXOs bc) ks"
  shows "GetBalance ks bc w = (\<Sum>k\<in>dom (UTXOs bc). balance_term w (UTXOs bc k))"
proof -
  from assms have d: "distinct ks" and s: "set ks = dom (UTXOs bc)"
    by (auto simp: iteration_order_def)
  have "GetBalance ks bc w = sum_list (map (\<lambda>k. balance_term w (UTXOs bc k)) ks)"
    unfolding GetBalance_def using s
    by (subst range_values_map)
       (auto simp: sum_list_map_filter_if comp_def balance_term_def
             intro!: arg_cong[where f=sum_list])
  also have "\<dots> = (\<Sum>k\<in>set ks. balance_term w (UTXOs bc k))"
    using d by (rule sum_list_distinct_conv_sum_set)
  finally show ?thesis using s by simp
qed

lemma GetBalance_order:
  "iteration_order (UTXOs bc) ks \<Longrightarrow> iteration_order (UTXOs bc) ks' \<Longrightarrow>
   GetBalance ks bc w = GetBalance ks' bc w"
  by (simp add: GetBalance_sum)

lemma iteration_order_finite: "iteration_order m ks \<Longrightarrow> finite (dom m)"
  by (auto simp: iteration_order_def dest: sym)

lemma fmt_d_0: "fmt_d 0 = ''0''"
  by (simp add: fmt_d_def digits10.simps)

subsection \<open>The nonce search and the block it returns\<close>

lemma hashBlock_Hash_update [simp]: "hashBlock (b\<lparr>Hash := h\<rparr>) = hashBlock b"
  by (simp add: hashBlock_def)

lemma hashBlock_cong:
  "Index_block a = Index_block b \<Longrightarrow> Timestamp_block a = Timestamp_block b \<Longrightarrow>
   Transactions a = Transactions b \<Longrightarrow> PreviousHash a = PreviousHash b \<Longrightarrow> Nonce a = Nonce b \<Longrightarrow>
   hashBlock a = hashBlock b"
  by (simp add: hashBlock_def)

lemma mine_loop_frame:
  "Index_block (mine_loop p n c b) = Index_block b \<and>
   Timestamp_block (mine_loop p n c b) = Timestamp_block b \<and>
   Transactions (mine_loop p n c b) = Transactions b \<and>
   PreviousHash (mine_loop p n c b) = PreviousHash b \<and>
   MerkleRoot (mine_loop p n c b) = MerkleRoot b"
  by (induction n arbitrary: c b) (simp_all add: Let_def)

text \<open>What the search returns: the first conforming nonce, or the last nonce of the budget.\<close>

lemma mine_loop_result:
  assumes "Hash b = []" and "0 < n"
  shows "\<exists>i<n. Nonce (mine_loop p n c b) = c + of_nat i \<and>
           (\<forall>j<i. \<not> prefix p (hashBlock (b\<lparr>Nonce := c + of_nat j\<rparr>))) \<and>
           (if prefix p (hashBlock (b\<lparr>Nonce := c + of_nat i\<rparr>))
            then Hash (mine_loop p n c b) = hashBlock (b\<lparr>Nonce := c + of_nat i\<rparr>)
            else i = n - 1 \<and> Hash (mine_loop p n c b) = [])"
  using assms
proof (induction n arbitrary: c b)
  case 0
  then show ?case by simp
next
  case (Suc n)
  show ?case
  proof (cases "prefix p (hashBlock (b\<lparr>Nonce := c\<rparr>))")
    case True
    then show ?thesis
      by (intro exI[of _ 0]) (simp add: Let_def)
  next
    case False
    note nf = False
    show ?thesis
    proof (cases n)
      case 0
      with nf Suc.prems show ?thesis
        by (intro exI[of _ 0]) (simp add: Let_def)
    next
      case (Suc m)
      let ?b = "b\<lparr>Nonce := c\<rparr>"
      from Suc.IH[of ?b "c + 1"] Suc.prems Suc
      obtain i where i: "i < n"
        and n: "Nonce (mine_loop p n (c + 1) ?b) = c + 1 + of_nat i"
        and before: "\<forall>j<i. \<not> prefix p (hashBlock (?b\<lparr>Nonce := c + 1 + of_nat j\<rparr>))"
        and at: "if prefix p (hashBlock (?b\<lparr>Nonce := c + 1 + of_nat i\<rparr>))
            then Hash (mine_loop p n (c + 1) ?b) = hashBlock (?b\<lparr>Nonce := c + 1 + of_nat i\<rparr>)
            else i = n - 1 \<and> Hash (mine_loop p n (c + 1) ?b) = []"
        by auto
      have step: "mine_loop p (Suc n) c b = mine_loop p n (c + 1) ?b"
        using nf by (simp add: Let_def)
      have shift: "c + 1 + of_nat k = c + of_nat (Suc k)" for k
        by simp
      have before': "\<forall>j<Suc i. \<not> prefix p (hashBlock (b\<lparr>Nonce := c + of_nat j\<rparr>))"
      proof (intro allI impI)
        fix j assume "j < Suc i"
        show "\<not> prefix p (hashBlock (b\<lparr>Nonce := c + of_nat j\<rparr>))"
        proof (cases j)
          case 0
          with nf show ?thesis by simp
        next
          case (Suc k)
          with \<open>j < Suc i\<close> have "k < i" by simp
          with before have "\<not> prefix p (hashBlock (?b\<lparr>Nonce := c + 1 + of_nat k\<rparr>))" by blast
          then show ?thesis using Suc by (simp add: shift del: of_nat_Suc)
        qed
      qed
      show ?thesis
        using i n before' at \<open>n = Suc m\<close>
        by (intro exI[of _ "Suc i"]) (auto simp: step shift simp del: of_nat_Suc split: if_splits)
    qed
  qed
qed

lemma reachable_Chain: "reachable bc \<Longrightarrow> Chain bc \<noteq> []"
  by (induction rule: reachable.induct)
     (auto simp: NewBlockchain_def AddPending_def Mine_def CreateFaucetUTXO_def Let_def
           split: if_splits)

lemma computeMerkle_single: "computeMerkle [tx] = sha256_hex (ID tx)"
  by (simp add: computeMerkle_def merkle_reduce.simps)

lemma Mine_Ok:
  "Chain bc \<noteq> [] \<Longrightarrow>
   Mine now nonceStart miner bc =
     Ok (mined_block now nonceStart miner bc,
         bc\<lparr>Chain := Chain bc @ [mined_block now nonceStart miner bc],
            UTXOs := foldl commit_tx (UTXOs bc) (Transactions (mined_block now nonceStart miner bc)),
            Pending := []\<rparr>)"
  by (simp add: Mine_def mined_block_def Let_def)

lemma mined_block_frame:
  "Index_block (mined_block now c miner bc) = int (length (Chain bc)) \<and>
   Timestamp_block (mined_block now c miner bc) = now \<and>
   Transactions (mined_block now c miner bc) = coinbase (int (length (Chain bc))) now miner # Pending bc \<and>
   PreviousHash (mined_block now c miner bc) = Hash (last (Chain bc)) \<and>
   MerkleRoot (mined_block now c miner bc) =
     computeMerkle (coinbase (int (length (Chain bc))) now miner # Pending bc)"
  by (simp add: mined_block_def Let_def mine_loop_frame)

lemma mined_block_search:
  "\<exists>i<maxIterations.
     Nonce (mined_block now c miner bc) = c + of_nat i \<and>
     (\<forall>j<i. \<not> prefix (DifficultyPref bc)
               (hashBlock (mined_block now c miner bc\<lparr>Nonce := c + of_nat j\<rparr>))) \<and>
     Hash (mined_block now c miner bc) = hashBlock (mined_block now c miner bc) \<and>
     (\<not> prefix (DifficultyPref bc) (Hash (mined_block now c miner bc)) \<longrightarrow> i = maxIterations - 1)"
proof -
  define b0 where "b0 = \<lparr>Index_block = int (length (Chain bc)), Timestamp_block = now,
      Transactions = coinbase (int (length (Chain bc))) now miner # Pending bc,
      PreviousHash = Hash (last (Chain bc)), Nonce = 0, Hash = [],
      MerkleRoot = computeMerkle (coinbase (int (length (Chain bc))) now miner # Pending bc)\<rparr>"
  define b1 where "b1 = mine_loop (DifficultyPref bc) maxIterations c b0"
  define b where "b = mined_block now c miner bc"
  have b: "b = (if Hash b1 = [] then b1\<lparr>Hash := hashBlock b1\<rparr> else b1)"
    by (simp add: b_def mined_block_def Let_def b1_def b0_def)
  have "Hash b0 = []" "0 < maxIterations"
    by (simp_all add: b0_def maxIterations_def)
  from mine_loop_result[OF this, of "DifficultyPref bc" c]
  obtain i where i: "i < maxIterations"
    and n: "Nonce b1 = c + of_nat i"
    and before: "\<forall>j<i. \<not> prefix (DifficultyPref bc) (hashBlock (b0\<lparr>Nonce := c + of_nat j\<rparr>))"
    and at: "if prefix (DifficultyPref bc) (hashBlock (b0\<lparr>Nonce := c + of_nat i\<rparr>))
            then Hash b1 = hashBlock (b0\<lparr>Nonce := c + of_nat i\<rparr>)
            else i = maxIterations - 1 \<and> Hash b1 = []"
    unfolding b1_def by blast
  have same: "hashBlock (b\<lparr>Nonce := x\<rparr>) = hashBlock (b0\<lparr>Nonce := x\<rparr>)" for x
    by (rule hashBlock_cong) (simp_all add: b b1_def mine_loop_frame)
  have nb: "Nonce b = c + of_nat i"
    using n by (simp add: b)
  have hb1: "hashBlock b1 = hashBlock (b0\<lparr>Nonce := c + of_nat i\<rparr>)"
    by (rule hashBlock_cong) (simp_all add: b1_def mine_loop_frame n[unfolded b1_def])
  have hb: "hashBlock b = hashBlock b1"
    by (simp add: b)
  have hash: "Hash b = hashBlock b"
    using at by (auto simp: b hb1 split: if_splits)
  have exhausted: "i = maxIterations - 1" if "\<not> prefix (DifficultyPref bc) (Hash b)"
    using that at hash hb hb1 by (auto split: if_splits)
  show ?thesis
    using i nb before hash exhausted unfolding b_def[symmetric] by (auto simp: same)
qed

subsection \<open>The keys of the UTXO map\<close>

lemma digit_value:
  "0 \<le> d \<Longrightarrow> d < 10 \<Longrightarrow> int (of_char (''0123456789'' ! nat d)) - 48 = d"
proof -
  assume "0 \<le> d" "d < 10"
  then have "d = 0 \<or> d = 1 \<or> d = 2 \<or> d = 3 \<or> d = 4 \<or> d = 5 \<or> d = 6 \<or> d = 7 \<or> d = 8 \<or> d = 9"
    by arith
  then show ?thesis by (elim disjE) simp_all
qed

lemma digits10_value:
  "0 \<le> n \<Longrightarrow> foldl (\<lambda>a c. 10 * a + (int (of_char c) - 48)) 0 (digits10 n) = n"
proof (induction n rule: digits10.induct)
  case (1 n)
  show ?case
  proof (cases "n < 10")
    case True
    with 1(2) show ?thesis
      by (subst digits10.simps) (simp add: digit_value)
  next
    case False
    with 1 have ih: "foldl (\<lambda>a c. 10 * a + (int (of_char c) - 48)) 0 (digits10 (n div 10)) = n div 10"
      by simp
    have "0 \<le> n mod 10" "n mod 10 < 10" by simp_all
    then have "int (of_char (''0123456789'' ! nat (n mod 10))) - 48 = n mod 10"
      by (rule digit_value)
    with False ih show ?thesis
      by (subst digits10.simps) simp
  qed
qed

lemma fmt_d_inj: "0 \<le> a \<Longrightarrow> 0 \<le> b \<Longrightarrow> fmt_d a = fmt_d b \<Longrightarrow> a = b"
proof -
  assume nn: "0 \<le> a" "0 \<le> b" and "fmt_d a = fmt_d b"
  then have "digits10 a = digits10 b"
    by (simp add: fmt_d_def)
  then have "foldl (\<lambda>a c. 10 * a + (int (of_char c) - 48)) 0 (digits10 a) =
      foldl (\<lambda>a c. 10 * a + (int (of_char c) - 48)) 0 (digits10 b)"
    by simp
  with nn show "a = b" by (simp add: digits10_value)
qed

lemma utxo_key_inj: "0 \<le> a \<Longrightarrow> 0 \<le> b \<Longrightarrow> utxo_key txid a = utxo_key txid b \<longleftrightarrow> a = b"
  by (auto simp: utxo_key_def dest: fmt_d_inj)

subsection \<open>The commit loops of \<open>Mine\<close>\<close>

lemma mark_spent_apply:
  "mark_spent m r k =
     (if k = utxo_key (TxID r) (Index_ref r) then map_option (\<lambda>ut. ut\<lparr>Spent := True\<rparr>) (m k)
      else m k)"
  by (simp add: mark_spent_def Let_def split: option.splits)

lemma foldl_mark_spent:
  "foldl mark_spent m inputs k =
     (if k \<in> (\<lambda>r. utxo_key (TxID r) (Index_ref r)) ` set inputs
      then map_option (\<lambda>ut. ut\<lparr>Spent := True\<rparr>) (m k) else m k)"
proof (induction inputs arbitrary: m)
  case Nil
  then show ?case by simp
next
  case (Cons r inputs)
  have "foldl mark_spent m (r # inputs) k = foldl mark_spent (mark_spent m r) inputs k"
    by simp
  also have "\<dots> =
     (if k \<in> (\<lambda>r. utxo_key (TxID r) (Index_ref r)) ` set inputs
      then map_option (\<lambda>ut. ut\<lparr>Spent := True\<rparr>) (mark_spent m r k) else mark_spent m r k)"
    by (rule Cons.IH)
  finally have "foldl mark_spent m (r # inputs) k =
     (if k \<in> (\<lambda>r. utxo_key (TxID r) (Index_ref r)) ` set inputs
      then map_option (\<lambda>ut. ut\<lparr>Spent := True\<rparr>) (mark_spent m r k) else mark_spent m r k)" .
  moreover have "mark_spent m r k =
     (if k = utxo_key (TxID r) (Index_ref r) then map_option (\<lambda>ut. ut\<lparr>Spent := True\<rparr>) (m k)
      else m k)"
    by (rule mark_spent_apply)
  ultimately show ?case
    by (cases "k = utxo_key (TxID r) (Index_ref r)")
       (simp_all add: option.map_comp comp_def del: foldl_Cons)
qed

lemma store_outputs_other:
  "(\<forall>i<length outs. k \<noteq> utxo_key txid (idx + int i)) \<Longrightarrow>
   store_outputs txid idx outs m k = m k"
proof (induction outs arbitrary: idx m)
  case Nil
  then show ?case by simp
next
  case (Cons out outs)
  from Cons.prems[rule_format, of 0] have k0: "k \<noteq> utxo_key txid idx"
    by simp
  have "\<forall>i<length outs. k \<noteq> utxo_key txid (idx + 1 + int i)"
  proof (intro allI impI)
    fix i assume "i < length outs"
    then have "Suc i < length (out # outs)" by simp
    from Cons.prems[rule_format, OF this] have "k \<noteq> utxo_key txid (idx + int (Suc i))" .
    moreover have "idx + int (Suc i) = idx + 1 + int i" by simp
    ultimately show "k \<noteq> utxo_key txid (idx + 1 + int i)" by metis
  qed
  from Cons.IH[OF this] k0 show ?case
    by (simp add: Let_def)
qed

lemma store_outputs_nth:
  "0 \<le> idx \<Longrightarrow> i < length outs \<Longrightarrow>
   store_outputs txid idx outs m (utxo_key txid (idx + int i)) =
     Some ((outs ! i)\<lparr>ID_utxo := utxo_key txid (idx + int i)\<rparr>)"
proof (induction outs arbitrary: idx m i)
  case Nil
  then show ?case by simp
next
  case (Cons out outs)
  show ?case
  proof (cases i)
    case 0
    then have eq: "idx + int i = idx" and nth: "(out # outs) ! i = out"
      by simp_all
    have "\<forall>j<length outs. utxo_key txid idx \<noteq> utxo_key txid (idx + 1 + int j)"
      using Cons.prems(1) by (simp add: utxo_key_inj)
    from store_outputs_other[OF this] show ?thesis
      unfolding eq nth store_outputs.simps Let_def by simp
  next
    case (Suc i')
    then have eq: "idx + int i = idx + 1 + int i'" and nth: "(out # outs) ! i = outs ! i'"
      by simp_all
    from Suc Cons.prems have "0 \<le> idx + 1" "i' < length outs" by simp_all
    then show ?thesis
      unfolding eq nth store_outputs.simps Let_def by (rule Cons.IH)
  qed
qed

text \<open>
  One round of the commit loop: each output is stored under \<open>id:index\<close>; at every other key, a
  UTXO that an input refers to is marked as spent, and nothing else changes.
\<close>

lemma commit_tx_output:
  "i < length (Outputs tx) \<Longrightarrow>
   commit_tx m tx (utxo_key (ID tx) (int i)) =
     Some ((Outputs tx ! i)\<lparr>ID_utxo := utxo_key (ID tx) (int i)\<rparr>)"
  using store_outputs_nth[of 0 i "Outputs tx" "ID tx"] by (simp add: commit_tx_def)

lemma commit_tx_other:
  "(\<forall>i<length (Outputs tx). k \<noteq> utxo_key (ID tx) (int i)) \<Longrightarrow>
   commit_tx m tx k =
     (if k \<in> (\<lambda>r. utxo_key (TxID r) (Index_ref r)) ` set (Inputs tx)
      then map_option (\<lambda>ut. ut\<lparr>Spent := True\<rparr>) (m k) else m k)"
  using store_outputs_other[of "Outputs tx" k "ID tx" 0] by (simp add: commit_tx_def foldl_mark_spent)

lemma foldl_commit_tx_other:
  "(\<forall>tx\<in>set txs. \<forall>i<length (Outputs tx). k \<noteq> utxo_key (ID tx) (int i)) \<Longrightarrow>
   foldl commit_tx m txs k =
     (if \<exists>tx\<in>set txs. \<exists>r\<in>set (Inputs tx). k = utxo_key (TxID r) (Index_ref r)
      then map_option (\<lambda>ut. ut\<lparr>Spent := True\<rparr>) (m k) else m k)"
proof (induction txs arbitrary: m)
  case Nil
  then show ?case by simp
next
  case (Cons tx txs)
  from Cons.prems have a: "\<forall>i<length (Outputs tx). k \<noteq> utxo_key (ID tx) (int i)"
    and b: "\<forall>tx\<in>set txs. \<forall>i<length (Outputs tx). k \<noteq> utxo_key (ID tx) (int i)"
    by simp_all
  show ?case
    unfolding foldl_Cons Cons.IH[OF b] commit_tx_other[OF a]
    by (auto simp: option.map_comp comp_def)
qed

lemma foldl_commit_tx_output:
  assumes "txs = pre @ tx # post" and "i < length (Outputs tx)"
    and "\<forall>tx'\<in>set post. \<forall>j<length (Outputs tx'). utxo_key (ID tx) (int i) \<noteq> utxo_key (ID tx') (int j)"
  shows "foldl commit_tx m txs (utxo_key (ID tx) (int i)) =
     Some ((Outputs tx ! i)
       \<lparr>ID_utxo := utxo_key (ID tx) (int i),
        Spent := Spent (Outputs tx ! i) \<or>
          (\<exists>tx'\<in>set post. \<exists>r\<in>set (Inputs tx'). utxo_key (ID tx) (int i) = utxo_key (TxID r) (Index_ref r))\<rparr>)"
proof -
  let ?k = "utxo_key (ID tx) (int i)"
  have "foldl commit_tx m txs ?k = foldl commit_tx (commit_tx (foldl commit_tx m pre) tx) post ?k"
    by (simp add: assms(1))
  also have "\<dots> =
     (if \<exists>tx'\<in>set post. \<exists>r\<in>set (Inputs tx'). ?k = utxo_key (TxID r) (Index_ref r)
      then map_option (\<lambda>ut. ut\<lparr>Spent := True\<rparr>) (commit_tx (foldl commit_tx m pre) tx ?k)
      else commit_tx (foldl commit_tx m pre) tx ?k)"
    by (rule foldl_commit_tx_other[OF assms(3)])
  finally show ?thesis
    by (simp add: commit_tx_output[OF assms(2)])
qed

subsection \<open>The Merkle root\<close>

lemma computeMerkle_pair:
  "computeMerkle [t1, t2] = sha256_hex (sha256_hex (ID t1) @ sha256_hex (ID t2))"
  by (simp add: computeMerkle_def merkle_reduce.simps[of "[a, b]" for a b]
        merkle_reduce.simps[of "[a]" for a])

lemma sort_mset_cong: "mset xs = mset ys \<Longrightarrow> sort xs = sort ys"
  for xs :: "'a::linorder list"
  by (metis mset_sort properties_for_sort sorted_sort)

lemma sha256_of_a:
  "sha256_hex ''a'' = ''ca978112ca1bbdcafac231b39a23dc4da786eff8147c4e72b9807785afee48bb''"
  by code_simp

lemma sha256_of_b:
  "sha256_hex ''b'' = ''3e23e8160039594a33894f6564e1b1348bbd7a0088d42c4acb73eeaed59c009d''"
  by code_simp

lemma sha256_of_a_b:
  "sha256_hex (''ca978112ca1bbdcafac231b39a23dc4da786eff8147c4e72b9807785afee48bb'' @
               ''3e23e8160039594a33894f6564e1b1348bbd7a0088d42c4acb73eeaed59c009d'') =
   ''62af5c3cb8da3e4f25061e829ebeea5c7513c54949115b1acc225930a90154da''"
  by code_simp

lemma sha256_of_b_a:
  "sha256_hex (''3e23e8160039594a33894f6564e1b1348bbd7a0088d42c4acb73eeaed59c009d'' @
               ''ca978112ca1bbdcafac231b39a23dc4da786eff8147c4e72b9807785afee48bb'') =
   ''ab19ec537f09499b26f0f62eed7aefad46ab9f498e06a7328ce8e8ef90da6d86''"
  by code_simp

subsection \<open>Coin selection\<close>

lemma mset_insert_left: "mset (insert_left x ys) = add_mset x (mset ys)"
  by (induction ys) auto

lemma set_insert_left: "set (insert_left x ys) = insert x (set ys)"
  by (induction ys) auto

lemma desc_insert_left: "descending ys \<Longrightarrow> descending (insert_left x ys)"
  by (induction ys) (auto simp: set_insert_left)

lemma insertionSort_fold:
  "mset (foldl (\<lambda>acc x. insert_left x acc) acc xs) = mset acc + mset xs \<and>
   (descending acc \<longrightarrow> descending (foldl (\<lambda>acc x. insert_left x acc) acc xs))"
  by (induction xs arbitrary: acc) (auto simp: mset_insert_left desc_insert_left)

lemma insertionSort_contract: "sort_Slice_contract insertionSort"
  using insertionSort_fold[of "[]"] by (simp add: sort_Slice_contract_def insertionSort_def)

lemma desc_amounts_sorted: "descending xs \<longleftrightarrow> sorted (rev (map Amount_utxo xs))"
  by (simp add: sorted_wrt_rev sorted_wrt_map flip: rev_map)

lemma desc_amounts_unique:
  assumes "descending xs" "descending ys" "mset xs = mset ys"
  shows "map Amount_utxo xs = map Amount_utxo ys"
proof -
  have "mset (rev (map Amount_utxo xs)) = mset (rev (map Amount_utxo ys))"
    using assms(3) by simp
  moreover have "sorted (rev (map Amount_utxo xs))" "sorted (rev (map Amount_utxo ys))"
    using assms(1,2) by (simp_all add: desc_amounts_sorted)
  ultimately have "rev (map Amount_utxo xs) = rev (map Amount_utxo ys)"
    using properties_for_sort[of "rev (map Amount_utxo xs)" "rev (map Amount_utxo ys)"]
    by (simp add: sorted_sort_id)
  then show ?thesis by simp
qed

lemma mset_range_values:
  assumes "iteration_order m ks" "iteration_order m ks'"
  shows "mset (range_values m ks) = mset (range_values m ks')"
proof -
  from assms have "mset ks = mset ks'"
    by (simp add: iteration_order_def set_eq_iff_mset_eq_distinct[symmetric])
  moreover have "set ks \<subseteq> dom m" "set ks' \<subseteq> dom m"
    using assms by (auto simp: iteration_order_def)
  ultimately show ?thesis
    by (simp add: range_values_map)
qed

lemma mset_available:
  "iteration_order (UTXOs bc) ks \<Longrightarrow> iteration_order (UTXOs bc) ks' \<Longrightarrow>
   mset (available_utxos ks bc w) = mset (available_utxos ks' bc w)"
  unfolding available_utxos_def
  by (simp add: mset_range_values[of "UTXOs bc" ks ks'])

lemma set_range_values:
  assumes "iteration_order m ks"
  shows "set (range_values m ks) = ran m"
proof -
  from assms have s: "set ks = dom m" by (simp add: iteration_order_def)
  then have "set (range_values m ks) = (\<lambda>k. the (m k)) ` dom m"
    by (simp add: range_values_map)
  also have "\<dots> = ran m"
    by (force simp: ran_def dom_def image_iff)
  finally show ?thesis .
qed

lemma set_available:
  "iteration_order (UTXOs bc) ks \<Longrightarrow>
   set (available_utxos ks bc w) = {u \<in> ran (UTXOs bc). Owner u = w \<and> \<not> Spent u}"
  by (auto simp: available_utxos_def set_range_values)

text \<open>The loop takes the shortest prefix whose running total reaches the amount.\<close>

lemma select_loop_prefix:
  "\<exists>k\<le>length xs.
     select_loop amt xs sel t = (sel @ take k xs, t + sum_list (map Amount_utxo (take k xs))) \<and>
     (\<forall>j<k. t + sum_list (map Amount_utxo (take j xs)) < amt) \<and>
     (k < length xs \<longrightarrow> amt \<le> t + sum_list (map Amount_utxo (take k xs)))"
proof (induction xs arbitrary: sel t)
  case Nil
  then show ?case by simp
next
  case (Cons x xs)
  show ?case
  proof (cases "amt \<le> t")
    case True
    then show ?thesis by (intro exI[of _ 0]) simp
  next
    case False
    from Cons.IH[of "sel @ [x]" "t + Amount_utxo x"]
    obtain k where k: "k \<le> length xs"
      and r: "select_loop amt xs (sel @ [x]) (t + Amount_utxo x) =
          ((sel @ [x]) @ take k xs, t + Amount_utxo x + sum_list (map Amount_utxo (take k xs)))"
      and b: "\<forall>j<k. t + Amount_utxo x + sum_list (map Amount_utxo (take j xs)) < amt"
      and e: "k < length xs \<longrightarrow> amt \<le> t + Amount_utxo x + sum_list (map Amount_utxo (take k xs))"
      by blast
    have b': "\<forall>j<Suc k. t + sum_list (map Amount_utxo (take j (x # xs))) < amt"
    proof (intro allI impI)
      fix j assume "j < Suc k"
      then show "t + sum_list (map Amount_utxo (take j (x # xs))) < amt"
        using False b by (cases j) (auto simp: add.assoc)
    qed
    show ?thesis
      using False k r b' e by (intro exI[of _ "Suc k"]) (simp add: add.assoc)
  qed
qed

lemma select_loop_amounts:
  "map Amount_utxo xs = map Amount_utxo ys \<Longrightarrow> map Amount_utxo s = map Amount_utxo s' \<Longrightarrow>
   snd (select_loop amt xs s t) = snd (select_loop amt ys s' t) \<and>
   map Amount_utxo (fst (select_loop amt xs s t)) = map Amount_utxo (fst (select_loop amt ys s' t))"
proof (induction xs arbitrary: ys s s' t)
  case Nil
  then show ?case by simp
next
  case (Cons x xs)
  then obtain y ys' where ys: "ys = y # ys'" by (cases ys) auto
  with Cons.prems have "Amount_utxo x = Amount_utxo y" "map Amount_utxo xs = map Amount_utxo ys'"
    by simp_all
  with Cons.IH[of ys' "s @ [x]" "s' @ [y]" "t + Amount_utxo x"] Cons.prems(2) ys
  show ?case by simp
qed

lemma unat_sum_list_le: "unat (sum_list (ws :: u64 list)) \<le> sum_list (map unat ws)"
proof (induction ws)
  case Nil
  then show ?case by simp
next
  case (Cons w ws)
  have "unat (w + sum_list ws) \<le> unat w + unat (sum_list ws)"
    by (simp add: unat_word_ariths) 
  with Cons show ?case by simp
qed

lemma sum_list_take_le: "sum_list (map f (take k xs)) \<le> (sum_list (map f xs) :: nat)"
proof -
  have "sum_list (map f xs) = sum_list (map f (take k xs)) + sum_list (map f (drop k xs))"
    by (simp flip: sum_list_append map_append)
  then show ?thesis by simp
qed


lemma unat_sum_list_eq:
  "sum_list (map unat (ws :: u64 list)) < 2 ^ 64 \<Longrightarrow> unat (sum_list ws) = sum_list (map unat ws)"
proof (induction ws)
  case Nil
  then show ?case by simp
next
  case (Cons w ws)
  then have "unat (sum_list ws) = sum_list (map unat ws)" by simp
  with Cons.prems show ?case by (simp add: unat_word_ariths)
qed

lemma sum_list_mset_cong:
  "mset xs = mset ys \<Longrightarrow> sum_list (map f xs) = (sum_list (map f ys) :: nat)"
  by (metis mset_map sum_mset_sum_list)

text \<open>The outcome of \<open>SelectUTXOs\<close> in terms of the sorted slice.\<close>

lemma SelectUTXOs_cases:
  fixes L ks bc w amount
  defines "xs \<equiv> sort_Slice L (available_utxos ks bc w)"
  shows "\<exists>k\<le>length xs.
     (\<forall>j<k. sum_list (map Amount_utxo (take j xs)) < amount) \<and>
     (k < length xs \<longrightarrow> amount \<le> sum_list (map Amount_utxo (take k xs))) \<and>
     SelectUTXOs L ks bc w amount =
       (if sum_list (map Amount_utxo (take k xs)) < amount then Err InsufficientBalance
        else Ok (take k xs, sum_list (map Amount_utxo (take k xs))))"
proof -
  from select_loop_prefix[of xs amount "[]" 0]
  obtain k where k: "k \<le> length xs"
    and r: "select_loop amount xs [] 0 = (take k xs, sum_list (map Amount_utxo (take k xs)))"
    and b: "\<forall>j<k. sum_list (map Amount_utxo (take j xs)) < amount"
    and e: "k < length xs \<longrightarrow> amount \<le> sum_list (map Amount_utxo (take k xs))"
    by auto
  have "SelectUTXOs L ks bc w amount =
       (if sum_list (map Amount_utxo (take k xs)) < amount then Err InsufficientBalance
        else Ok (take k xs, sum_list (map Amount_utxo (take k xs))))"
    using r by (simp add: SelectUTXOs_def xs_def[symmetric])
  with k b e show ?thesis by blast
qed


lemma SelectUTXOs_outcome:
  fixes L ks bc w amount
  defines "xs \<equiv> sort_Slice L (available_utxos ks bc w)"
  shows "case SelectUTXOs L ks bc w amount of
        Ok (selected, tot) \<Rightarrow>
          prefix selected xs \<and> tot = sum_list (map Amount_utxo selected) \<and> amount \<le> tot \<and>
          (\<forall>p. strict_prefix p selected \<longrightarrow> sum_list (map Amount_utxo p) < amount)
      | Err e \<Rightarrow>
          e = InsufficientBalance \<and> (\<forall>p. prefix p xs \<longrightarrow> sum_list (map Amount_utxo p) < amount)
      | Panic p \<Rightarrow> False"
proof -
  from SelectUTXOs_cases[of L ks bc w amount]
  obtain k where k: "k \<le> length xs"
    and b: "\<forall>j<k. sum_list (map Amount_utxo (take j xs)) < amount"
    and e: "k < length xs \<longrightarrow> amount \<le> sum_list (map Amount_utxo (take k xs))"
    and r: "SelectUTXOs L ks bc w amount =
       (if sum_list (map Amount_utxo (take k xs)) < amount then Err InsufficientBalance
        else Ok (take k xs, sum_list (map Amount_utxo (take k xs))))"
    unfolding xs_def by blast
  show ?thesis
  proof (cases "sum_list (map Amount_utxo (take k xs)) < amount")
    case True
    with e k have kl: "k = length xs" by (auto simp: not_le[symmetric])
    have "sum_list (map Amount_utxo p) < amount" if "prefix p xs" for p
    proof -
      from that obtain j where j: "p = take j xs" "j \<le> length xs"
        by (metis prefix_def append_eq_conv_conj length_append le_add1)
      show ?thesis
      proof (cases "j < k")
        case True
        with b j show ?thesis by simp
      next
        case False
        with j kl have "p = take k xs" by simp
        with \<open>sum_list (map Amount_utxo (take k xs)) < amount\<close> show ?thesis by simp
      qed
    qed
    with True r show ?thesis by simp
  next
    case False
    have "sum_list (map Amount_utxo p) < amount" if "strict_prefix p (take k xs)" for p
    proof -
      from that obtain j where j: "p = take j (take k xs)" "j < length (take k xs)"
        by (metis strict_prefix_def prefix_def append_eq_conv_conj length_append
              prefix_length_less)
      then have "j < k" "p = take j xs" by (simp_all add: min_def split: if_splits)
      with b show ?thesis by simp
    qed
    with False r show ?thesis by (simp add: take_is_prefix not_less)
  qed
qed

lemma SelectUTXOs_insufficient:
  assumes "sort_Slice_contract (sort_Slice L)"
    and "sum_list (map (unat \<circ> Amount_utxo) (available_utxos ks bc w)) < unat amount"
  shows "SelectUTXOs L ks bc w amount = Err InsufficientBalance"
proof -
  define xs where "xs = sort_Slice L (available_utxos ks bc w)"
  have "mset xs = mset (available_utxos ks bc w)"
    using assms(1) by (simp add: sort_Slice_contract_def xs_def)
  then have all: "sum_list (map (unat \<circ> Amount_utxo) xs) < unat amount"
    using assms(2) sum_list_mset_cong[of xs "available_utxos ks bc w" "unat \<circ> Amount_utxo"] by simp
  from SelectUTXOs_cases[of L ks bc w amount]
  obtain k where r: "SelectUTXOs L ks bc w amount =
       (if sum_list (map Amount_utxo (take k xs)) < amount then Err InsufficientBalance
        else Ok (take k xs, sum_list (map Amount_utxo (take k xs))))"
    unfolding xs_def by blast
  have "unat (sum_list (map Amount_utxo (take k xs))) \<le> sum_list (map unat (map Amount_utxo (take k xs)))"
    by (rule unat_sum_list_le)
  also have "\<dots> = sum_list (map (unat \<circ> Amount_utxo) (take k xs))" by simp
  also have "\<dots> \<le> sum_list (map (unat \<circ> Amount_utxo) xs)" by (rule sum_list_take_le)
  also note all
  finally have "sum_list (map Amount_utxo (take k xs)) < amount"
    by (simp add: word_less_nat_alt)
  with r show ?thesis by simp
qed


lemma CreateTransaction_Ok:
  "CreateTransaction L ob ws bc s r amount note pub priv = Ok tx \<Longrightarrow>
   \<exists>selected tot. SelectUTXOs L (range_UTXOs ob) bc s amount = Ok (selected, tot) \<and>
     Inputs tx = map utxo_ref selected \<and> Outputs tx = build_outputs r s amount tot (ID tx) \<and>
     SenderID tx = s \<and> ReceiverID tx = r \<and> Amount tx = amount \<and> Type tx = ''transfer''"
  by (auto simp: CreateTransaction_def Let_def split: if_splits outcome.splits prod.splits)

lemma scenario_selection:
  assumes "sort_Slice_contract (sort_Slice L)"
    and "mset (map Amount_utxo (available_utxos ks bc w)) = {#70, 30, 10#}"
  shows "\<exists>u. u \<in> set (available_utxos ks bc w) \<and> Amount_utxo u = 70 \<and>
             SelectUTXOs L ks bc w 65 = Ok ([u], 70)"
proof -
  define xs where "xs = sort_Slice L (available_utxos ks bc w)"
  have m: "mset xs = mset (available_utxos ks bc w)" and d: "descending xs"
    using assms(1) by (simp_all add: sort_Slice_contract_def xs_def)
  have "mset (map Amount_utxo xs) = {#70, 30, 10#}"
    using m assms(2) by (metis mset_map)
  then have "mset (rev (map Amount_utxo xs)) = mset [10, 30, 70 :: u64]"
    by (simp add: add_mset_commute)
  moreover have "sorted (rev (map Amount_utxo xs))"
    using d by (simp add: desc_amounts_sorted)
  ultimately have "sort [10, 30, 70 :: u64] = rev (map Amount_utxo xs)"
    by (rule properties_for_sort)
  moreover have "sort [10, 30, 70 :: u64] = [10, 30, 70]"
    by (rule sorted_sort_id) simp
  ultimately have "rev (map Amount_utxo xs) = [10, 30, 70]" by simp
  then have "map Amount_utxo xs = rev [10, 30, 70]" by (metis rev_rev_ident)
  then have am: "map Amount_utxo xs = [70, 30, 10]" by simp
  then obtain a b c where xs: "xs = [a, b, c]"
    and a: "Amount_utxo a = 70" "Amount_utxo b = 30" "Amount_utxo c = 10"
    by (auto simp: map_eq_Cons_conv)
  have "a \<in> set (available_utxos ks bc w)"
    using m xs by (metis list.set_intros(1) mset_eq_setD)
  moreover have "SelectUTXOs L ks bc w 65 = Ok ([a], 70)"
    by (simp add: SelectUTXOs_def xs_def[symmetric] xs a)
  ultimately show ?thesis using a by blast
qed



lemma zero_key_decodes: "map_option length (DecodeString zero_key) = Some 64"
  by code_simp

lemma fmt_d_1: "fmt_d 1 = ''1''"
  by (simp add: fmt_d_def digits10.simps)

text \<open>Two runs of \<open>SelectUTXOs\<close> on one ledger work on slices with the same amounts.\<close>

lemma sorted_amounts_agree:
  assumes "sort_Slice_contract (sort_Slice L)"
    and "iteration_order (UTXOs bc) ks1" and "iteration_order (UTXOs bc) ks2"
  shows "map Amount_utxo (sort_Slice L (available_utxos ks1 bc w)) =
         map Amount_utxo (sort_Slice L (available_utxos ks2 bc w))"
proof -
  let ?x1 = "sort_Slice L (available_utxos ks1 bc w)"
  let ?x2 = "sort_Slice L (available_utxos ks2 bc w)"
  have "mset ?x1 = mset ?x2"
    using assms(1) mset_available[OF assms(2,3), of w] by (simp add: sort_Slice_contract_def)
  moreover have "descending ?x1" "descending ?x2"
    using assms(1) by (simp_all add: sort_Slice_contract_def)
  ultimately show ?thesis by (intro desc_amounts_unique)
qed

lemma descending_prefix: "prefix p xs \<Longrightarrow> descending xs \<Longrightarrow> descending p"
  by (auto simp: prefix_def sorted_wrt_append)

subsection \<open>Selection when the amounts do not pass \<open>2^64\<close>\<close>

lemma prefix_sum_exact:
  assumes "sum_list (map (unat \<circ> Amount_utxo) xs) < 2 ^ 64" and "prefix p xs"
  shows "unat (sum_list (map Amount_utxo p)) = sum_list (map (unat \<circ> Amount_utxo) p)"
proof -
  from assms(2) obtain j where p: "p = take j xs"
    by (metis prefix_def append_eq_conv_conj)
  have "sum_list (map (unat \<circ> Amount_utxo) p) \<le> sum_list (map (unat \<circ> Amount_utxo) xs)"
    unfolding p by (rule sum_list_take_le)
  with assms(1) have "sum_list (map unat (map Amount_utxo p)) < 2 ^ 64"
    by simp
  from unat_sum_list_eq[OF this] show ?thesis by simp
qed

lemma SelectUTXOs_exact:
  assumes "sort_Slice_contract (sort_Slice L)"
    and "sum_list (map (unat \<circ> Amount_utxo) (available_utxos ks bc w)) < 2 ^ 64"
  shows "case SelectUTXOs L ks bc w amount of
        Ok (selected, tot) \<Rightarrow>
          unat tot = sum_list (map (unat \<circ> Amount_utxo) selected) \<and>
          unat amount \<le> sum_list (map (unat \<circ> Amount_utxo) selected) \<and>
          (\<forall>p. strict_prefix p selected \<longrightarrow>
               sum_list (map (unat \<circ> Amount_utxo) p) < unat amount)
      | Err e \<Rightarrow>
          sum_list (map (unat \<circ> Amount_utxo) (available_utxos ks bc w)) < unat amount
      | Panic p \<Rightarrow> False"
proof -
  define xs where "xs = sort_Slice L (available_utxos ks bc w)"
  have "mset xs = mset (available_utxos ks bc w)"
    using assms(1) by (simp add: sort_Slice_contract_def xs_def)
  then have all: "sum_list (map (unat \<circ> Amount_utxo) xs) =
      sum_list (map (unat \<circ> Amount_utxo) (available_utxos ks bc w))"
    by (rule sum_list_mset_cong)
  with assms(2) have bound: "sum_list (map (unat \<circ> Amount_utxo) xs) < 2 ^ 64"
    by simp
  note exact = prefix_sum_exact[OF bound]
  note outcome = SelectUTXOs_outcome[of L ks bc w amount, folded xs_def]
  show ?thesis
  proof (cases "SelectUTXOs L ks bc w amount")
    case (Ok r)
    obtain selected tot where r: "r = (selected, tot)" by (cases r)
    from outcome Ok r have pre: "prefix selected xs"
      and tot: "tot = sum_list (map Amount_utxo selected)" and le: "amount \<le> tot"
      and short: "\<forall>p. strict_prefix p selected \<longrightarrow> sum_list (map Amount_utxo p) < amount"
      by auto
    have t: "unat tot = sum_list (map (unat \<circ> Amount_utxo) selected)"
      unfolding tot by (rule exact[OF pre])
    have a: "unat amount \<le> sum_list (map (unat \<circ> Amount_utxo) selected)"
      using le t by (simp add: word_le_nat_alt)
    have "sum_list (map (unat \<circ> Amount_utxo) p) < unat amount" if "strict_prefix p selected" for p
    proof -
      from that pre have "prefix p xs"
        by (meson prefix_order.dual_order.strict_implies_order prefix_order.order_trans)
      from short that have "sum_list (map Amount_utxo p) < amount"
        by blast
      with exact[OF \<open>prefix p xs\<close>] show ?thesis
        by (simp add: word_less_nat_alt)
    qed
    with t a show ?thesis by (simp add: Ok r)
  next
    case (Err e)
    with outcome have "sum_list (map Amount_utxo xs) < amount"
      by simp
    with exact[of xs] all show ?thesis
      by (simp add: Err word_less_nat_alt)
  next
    case (Panic p)
    with outcome show ?thesis by simp
  qed
qed

lemma ledger_with_overflow:
  "UTXOs (ledger_with [9223372036854775808, 9223372036854775808]) =
   [''t0:0'' \<mapsto> \<lparr>ID_utxo = ''t0:0'', Owner = wallet_W, Amount_utxo = 9223372036854775808,
                  OriginTx = ''t0'', Index_utxo = 0, Spent = False\<rparr>,
    ''t1:0'' \<mapsto> \<lparr>ID_utxo = ''t1:0'', Owner = wallet_W, Amount_utxo = 9223372036854775808,
                  OriginTx = ''t1'', Index_utxo = 0, Spent = False\<rparr>]"
  by (simp add: ledger_with_def utxo_key_def fmt_d_0 fmt_d_1 fun_eq_iff)

subsection \<open>Two transfers that spend one output\<close>

lemma fmt_d_2: "fmt_d 2 = ''2''"
  by (simp add: fmt_d_def digits10.simps)

text \<open>Validation reads the UTXO map and not the pending pool.\<close>

lemma UTXOs_AddPending: "UTXOs (AddPending tx' bc) = UTXOs bc"
  by (simp add: AddPending_def)

lemma validate_inputs_AddPending: "validate_inputs (AddPending tx' bc) tx = validate_inputs bc tx"
  unfolding validate_inputs_def UTXOs_AddPending ..

lemma ValidateTransaction_AddPending:
  "ValidateTransaction L (AddPending tx' bc) tx = ValidateTransaction L bc tx"
  unfolding ValidateTransaction_def validate_inputs_AddPending ..

lemma SelectUTXOs_AddPending:
  "SelectUTXOs L ks (AddPending tx' bc) w amount = SelectUTXOs L ks bc w amount"
  unfolding SelectUTXOs_def available_utxos_def UTXOs_AddPending ..

lemma CreateTransaction_AddPending:
  "CreateTransaction L ob ws (AddPending tx' bc) s r amount note pub priv =
   CreateTransaction L ob ws bc s r amount note pub priv"
  unfolding CreateTransaction_def SelectUTXOs_AddPending ..

lemma faucet_once_UTXOs:
  "UTXOs faucet_once = [''faucet-A-0:0'' \<mapsto>
      \<lparr>ID_utxo = ''faucet-A-0:0'', Owner = ''A'', Amount_utxo = 1000, OriginTx = ''faucet-A-0'',
       Index_utxo = 0, Spent = False\<rparr>]"
  by (simp add: faucet_once_def CreateFaucetUTXO_def NewBlockchain_def fmt_d_0 FaucetAmount_def Let_def)

lemma faucet_once_Chain: "Chain faucet_once = [genesis 0]"
  by (simp add: faucet_once_def CreateFaucetUTXO_def NewBlockchain_def Let_def)

lemma faucet_once_select:
  "SelectUTXOs example_lib [''faucet-A-0:0''] faucet_once ''A'' 600 =
     Ok ([\<lparr>ID_utxo = ''faucet-A-0:0'', Owner = ''A'', Amount_utxo = 1000, OriginTx = ''faucet-A-0'',
           Index_utxo = 0, Spent = False\<rparr>], 1000)"
  by (simp add: SelectUTXOs_def available_utxos_def range_values_def faucet_once_UTXOs
        example_lib_def insertionSort_def)

lemma spend_of_A_created:
  "CreateTransaction example_lib \<lparr>range_UTXOs = [''faucet-A-0:0''], UnixNano = n, Unix = 0\<rparr>
     wallets_A_B_C faucet_once ''A'' r 600 [] [] zero_key =
   (if r \<in> {''A'', ''B'', ''C''} then Ok (spend_of_A (''tx-'' @ fmt_d n) r) else Err ReceiverNotFound)"
proof -
  obtain priv where key: "DecodeString zero_key = Some priv" "length priv = 64"
    using zero_key_decodes by auto
  have sg: "ed25519_Sign example_lib p m = []" for p m
    by (simp add: example_lib_def)
  show ?thesis
    by (simp add: CreateTransaction_def wallets_A_B_C_def faucet_once_select SignWithPriv_def key
          sg Let_def spend_of_A_def utxo_ref_def build_outputs_def EncodeToString_def)
qed

lemma spend_of_A_valid: "validate_inputs faucet_once (spend_of_A txID r) = Ok ()"
  by (simp add: validate_inputs_def spend_of_A_def utxo_key_def fmt_d_0 faucet_once_UTXOs
        inputTotal_def outputTotal_def input_amount_def new_output_def Let_def)

lemma double_spend_pool_fields:
  "Chain double_spend_pool = [genesis 0]"
  "Pending double_spend_pool = [spend_of_A ''tx-1'' ''B'', spend_of_A ''tx-2'' ''C'']"
  "UTXOs double_spend_pool = UTXOs faucet_once"
  by (simp_all add: double_spend_pool_def AddPending_def faucet_once_Chain faucet_once_def
        CreateFaucetUTXO_def NewBlockchain_def Let_def)

lemma double_spend_mined:
  "Mine 0 0 ''M'' double_spend_pool = Ok (mined_block 0 0 ''M'' double_spend_pool, double_spend_ledger)"
proof -
  have "Chain double_spend_pool \<noteq> []"
    by (simp add: double_spend_pool_fields)
  from Mine_Ok[OF this, of 0 0 "''M''"] show ?thesis
    by (simp add: double_spend_ledger_def)
qed

lemma double_spend_block:
  "Transactions (mined_block 0 0 ''M'' double_spend_pool) =
     [coinbase 1 0 ''M'', spend_of_A ''tx-1'' ''B'', spend_of_A ''tx-2'' ''C'']"
  using mined_block_frame[of 0 0 "''M''" double_spend_pool]
  by (simp add: double_spend_pool_fields)

lemma double_spend_ledger_fields:
  "Chain double_spend_ledger = [genesis 0, mined_block 0 0 ''M'' double_spend_pool]"
  "Pending double_spend_ledger = []"
  "UTXOs double_spend_ledger =
     foldl commit_tx (UTXOs faucet_once)
       [coinbase 1 0 ''M'', spend_of_A ''tx-1'' ''B'', spend_of_A ''tx-2'' ''C'']"
proof -
  have "Chain double_spend_pool \<noteq> []"
    by (simp add: double_spend_pool_fields)
  from Mine_Ok[OF this, of 0 0 "''M''"]
  have l: "double_spend_ledger =
      double_spend_pool\<lparr>Chain := Chain double_spend_pool @ [mined_block 0 0 ''M'' double_spend_pool],
        UTXOs := foldl commit_tx (UTXOs double_spend_pool)
                   (Transactions (mined_block 0 0 ''M'' double_spend_pool)),
        Pending := []\<rparr>"
    by (simp add: double_spend_ledger_def)
  show "Chain double_spend_ledger = [genesis 0, mined_block 0 0 ''M'' double_spend_pool]"
    by (simp add: l double_spend_pool_fields)
  show "Pending double_spend_ledger = []"
    by (simp add: l)
  show "UTXOs double_spend_ledger =
     foldl commit_tx (UTXOs faucet_once)
       [coinbase 1 0 ''M'', spend_of_A ''tx-1'' ''B'', spend_of_A ''tx-2'' ''C'']"
    by (simp add: l double_spend_pool_fields double_spend_block)
qed

lemma double_spend_values:
  "range_values (UTXOs double_spend_ledger) double_spend_keys =
     [\<lparr>ID_utxo = ''faucet-A-0:0'', Owner = ''A'', Amount_utxo = 1000, OriginTx = ''faucet-A-0'',
       Index_utxo = 0, Spent = True\<rparr>,
      \<lparr>ID_utxo = ''coinbase-1-0:0'', Owner = ''M'', Amount_utxo = 50, OriginTx = ''coinbase-1-0'',
       Index_utxo = 0, Spent = False\<rparr>,
      \<lparr>ID_utxo = ''tx-1:0'', Owner = ''B'', Amount_utxo = 600, OriginTx = ''tx-1'',
       Index_utxo = 0, Spent = False\<rparr>,
      \<lparr>ID_utxo = ''tx-1:1'', Owner = ''A'', Amount_utxo = 400, OriginTx = ''tx-1'',
       Index_utxo = 1, Spent = False\<rparr>,
      \<lparr>ID_utxo = ''tx-2:0'', Owner = ''C'', Amount_utxo = 600, OriginTx = ''tx-2'',
       Index_utxo = 0, Spent = False\<rparr>,
      \<lparr>ID_utxo = ''tx-2:1'', Owner = ''A'', Amount_utxo = 400, OriginTx = ''tx-2'',
       Index_utxo = 1, Spent = False\<rparr>]"
  by (simp add: double_spend_ledger_fields faucet_once_UTXOs commit_tx_def mark_spent_def
        coinbase_def spend_of_A_def new_output_def utxo_key_def fmt_d_0 fmt_d_1 MiningReward_def
        range_values_def double_spend_keys_def Let_def List.map_filter_simps)

lemma double_spend_order: "iteration_order (UTXOs double_spend_ledger) double_spend_keys"
  by (auto simp: double_spend_ledger_fields faucet_once_UTXOs commit_tx_def mark_spent_def
        coinbase_def spend_of_A_def new_output_def utxo_key_def fmt_d_0 fmt_d_1 MiningReward_def
        iteration_order_def double_spend_keys_def Let_def)

subsection \<open>The faucet after its first output was spent\<close>

lemma spent_faucet_mined:
  "Mine 0 0 ''M'' (AddPending (spend_of_A ''tx-1'' ''B'') faucet_once) =
     Ok (mined_block 0 0 ''M'' (AddPending (spend_of_A ''tx-1'' ''B'') faucet_once),
         spent_faucet_ledger)"
proof -
  have "Chain (AddPending (spend_of_A ''tx-1'' ''B'') faucet_once) \<noteq> []"
    by (simp add: AddPending_def faucet_once_Chain)
  from Mine_Ok[OF this, of 0 0 "''M''"] show ?thesis
    by (simp add: spent_faucet_ledger_def)
qed

lemma spent_faucet_reachable: "reachable spent_faucet_ledger"
proof -
  have "reachable faucet_once"
    unfolding faucet_once_def by (rule reach_faucet) (rule reach_new)
  then have "reachable (AddPending (spend_of_A ''tx-1'' ''B'') faucet_once)"
    by (rule reach_pending)
  then show ?thesis
    by (rule reach_mine[OF _ spent_faucet_mined])
qed

lemma spent_faucet_UTXOs:
  "UTXOs spent_faucet_ledger =
     foldl commit_tx (UTXOs faucet_once) [coinbase 1 0 ''M'', spend_of_A ''tx-1'' ''B'']"
proof -
  let ?bc = "AddPending (spend_of_A ''tx-1'' ''B'') faucet_once"
  have c: "Chain ?bc = [genesis 0]" and p: "Pending ?bc = [spend_of_A ''tx-1'' ''B'']"
    and u: "UTXOs ?bc = UTXOs faucet_once"
    by (simp_all add: AddPending_def faucet_once_Chain faucet_once_def CreateFaucetUTXO_def
          NewBlockchain_def Let_def)
  have t: "Transactions (mined_block 0 0 ''M'' ?bc) = [coinbase 1 0 ''M'', spend_of_A ''tx-1'' ''B'']"
    using mined_block_frame[of 0 0 "''M''" ?bc] by (simp add: c p)
  have "Chain ?bc \<noteq> []" by (simp add: c)
  from Mine_Ok[OF this, of 0 0 "''M''"]
  have l: "spent_faucet_ledger =
      ?bc\<lparr>Chain := Chain ?bc @ [mined_block 0 0 ''M'' ?bc],
          UTXOs := foldl commit_tx (UTXOs ?bc) (Transactions (mined_block 0 0 ''M'' ?bc)),
          Pending := []\<rparr>"
    by (simp add: spent_faucet_ledger_def)
  show ?thesis by (simp add: l t u)
qed

lemma spent_faucet_values:
  "range_values (UTXOs spent_faucet_ledger) spent_faucet_keys =
     [\<lparr>ID_utxo = ''faucet-A-0:0'', Owner = ''A'', Amount_utxo = 1000, OriginTx = ''faucet-A-0'',
       Index_utxo = 0, Spent = True\<rparr>,
      \<lparr>ID_utxo = ''coinbase-1-0:0'', Owner = ''M'', Amount_utxo = 50, OriginTx = ''coinbase-1-0'',
       Index_utxo = 0, Spent = False\<rparr>,
      \<lparr>ID_utxo = ''tx-1:0'', Owner = ''B'', Amount_utxo = 600, OriginTx = ''tx-1'',
       Index_utxo = 0, Spent = False\<rparr>,
      \<lparr>ID_utxo = ''tx-1:1'', Owner = ''A'', Amount_utxo = 400, OriginTx = ''tx-1'',
       Index_utxo = 1, Spent = False\<rparr>]"
  by (simp add: spent_faucet_UTXOs faucet_once_UTXOs commit_tx_def mark_spent_def
        coinbase_def spend_of_A_def new_output_def utxo_key_def fmt_d_0 fmt_d_1 MiningReward_def
        range_values_def spent_faucet_keys_def Let_def List.map_filter_simps)

lemma spent_faucet_order: "iteration_order (UTXOs spent_faucet_ledger) spent_faucet_keys"
  by (auto simp: spent_faucet_UTXOs faucet_once_UTXOs commit_tx_def mark_spent_def
        coinbase_def spend_of_A_def new_output_def utxo_key_def fmt_d_0 fmt_d_1 MiningReward_def
        iteration_order_def spent_faucet_keys_def Let_def)

lemma spent_faucet_old:
  "UTXOs spent_faucet_ledger ''faucet-A-0:0'' =
     Some \<lparr>ID_utxo = ''faucet-A-0:0'', Owner = ''A'', Amount_utxo = 1000, OriginTx = ''faucet-A-0'',
           Index_utxo = 0, Spent = True\<rparr>"
  by (simp add: spent_faucet_UTXOs faucet_once_UTXOs commit_tx_def mark_spent_def
        coinbase_def spend_of_A_def new_output_def utxo_key_def fmt_d_0 fmt_d_1 MiningReward_def
        Let_def)

lemma GetBalance_replaced:
  assumes ks: "iteration_order m ks" and ks': "iteration_order (m(k \<mapsto> u)) ks'"
    and bc: "UTXOs bc = m" and bc': "UTXOs bc' = m(k \<mapsto> u)"
  shows "GetBalance ks' bc' w = GetBalance ks bc w - balance_term w (m k) + balance_term w (Some u)"
proof -
  have fin: "finite (dom m)" using ks by (rule iteration_order_finite)
  have a: "GetBalance ks bc w = (\<Sum>j\<in>dom m. balance_term w (m j))"
    using GetBalance_sum[of bc ks w] ks bc by simp
  have b: "GetBalance ks' bc' w = (\<Sum>j\<in>insert k (dom m). balance_term w ((m(k \<mapsto> u)) j))"
    using GetBalance_sum[of bc' ks' w] ks' bc' by simp
  have rest: "(\<Sum>j\<in>dom m - {k}. balance_term w ((m(k \<mapsto> u)) j)) =
      (\<Sum>j\<in>dom m - {k}. balance_term w (m j))"
    by (intro sum.cong) auto
  have "(\<Sum>j\<in>insert k (dom m). balance_term w ((m(k \<mapsto> u)) j)) =
      balance_term w (Some u) + (\<Sum>j\<in>dom m - {k}. balance_term w (m j))"
    using fin by (simp add: sum.insert_remove rest)
  moreover have "(\<Sum>j\<in>dom m. balance_term w (m j)) =
      balance_term w (m k) + (\<Sum>j\<in>dom m - {k}. balance_term w (m j))"
  proof (cases "k \<in> dom m")
    case True
    with fin show ?thesis by (simp add: sum.remove)
  next
    case False
    then have "m k = None" "dom m - {k} = dom m" by auto
    then show ?thesis by (simp add: balance_term_def)
  qed
  ultimately show ?thesis using a b by simp
qed

subsection \<open>\<open>ValidateTransaction\<close>\<close>

lemma check_inputs_Ok:
  "check_inputs m sender inputs = Ok () \<longleftrightarrow>
   (\<forall>r\<in>set inputs. \<exists>utxo. m (utxo_key (TxID r) (Index_ref r)) = Some utxo \<and>
        \<not> Spent utxo \<and> Owner utxo = sender)"
  by (induction inputs) (auto simp: Let_def split: option.splits)

lemma check_inputs_no_panic: "check_inputs m sender inputs \<noteq> Panic p"
  by (induction inputs) (auto simp: Let_def split: option.splits)

text \<open>
  What the code decides: the four conditions, with both sums taken in 64-bit arithmetic,
  and a public key that decodes to 32 bytes.
\<close>

lemma ValidateTransaction_Ok:
  "ValidateTransaction L bc tx = Ok () \<longleftrightarrow>
   VerifySignature L (PubKey tx)
     (MarshalPayload L (SenderID tx) (ReceiverID tx) (Amount tx) (Timestamp tx) (Note tx))
     (Signature tx) = Ok True \<and>
   WalletIDFromPub (PubKey tx) = Some (SenderID tx) \<and>
   (\<forall>r\<in>set (Inputs tx). \<exists>utxo. UTXOs bc (utxo_key (TxID r) (Index_ref r)) = Some utxo \<and>
        \<not> Spent utxo \<and> Owner utxo = SenderID tx) \<and>
   inputTotal (UTXOs bc) (Inputs tx) = outputTotal (Outputs tx)"
proof -
  have v: "validate_inputs bc tx = Ok () \<longleftrightarrow>
      check_inputs (UTXOs bc) (SenderID tx) (Inputs tx) = Ok () \<and>
      inputTotal (UTXOs bc) (Inputs tx) = outputTotal (Outputs tx)"
    by (auto simp: validate_inputs_def split: outcome.splits)
  show ?thesis
    unfolding ValidateTransaction_def Let_def
    by (auto simp: v check_inputs_Ok split: outcome.splits option.splits)
qed

lemma validate_inputs_overflow: "validate_inputs bc (overflow_tx pubHex sigHex) = Ok ()"
  by (simp add: validate_inputs_def overflow_tx_def inputTotal_def outputTotal_def new_output_def)

subsection \<open>The levy\<close>

lemma bit_length_bounds: "0 < n \<Longrightarrow> 2 ^ (bit_length n - 1) \<le> n \<and> n < 2 ^ bit_length n"
proof (induction n rule: bit_length.induct)
  case (1 n)
  show ?case
  proof (cases "n = 1")
    case True
    then show ?thesis by (simp add: bit_length.simps[of 1] bit_length.simps[of 0])
  next
    case False
    with "1.prems" have h: "0 < n div 2" by simp
    from "1.IH" "1.prems" h
    have ih: "2 ^ (bit_length (n div 2) - 1) \<le> n div 2" "n div 2 < 2 ^ bit_length (n div 2)"
      by simp_all
    have bl: "bit_length n = Suc (bit_length (n div 2))"
      using "1.prems" by (subst bit_length.simps) simp
    have pos: "0 < bit_length (n div 2)"
      using h by (subst bit_length.simps) simp
    then obtain k where k: "bit_length (n div 2) = Suc k" by (cases "bit_length (n div 2)") auto
    have "2 * p \<le> n \<and> n < 4 * p" if "p \<le> n div 2" "n div 2 < 2 * p" for p :: int
      using that by presburger
    from this[of "2 ^ k"] ih show ?thesis
      unfolding bl k by simp
  qed
qed

lemma bit_length_le: "0 < n \<Longrightarrow> n < 2 ^ k \<Longrightarrow> bit_length n \<le> k"
proof -
  assume n: "0 < n" "n < 2 ^ k"
  from bit_length_bounds[OF n(1)] have "2 ^ (bit_length n - 1) \<le> n" by blast
  also note n(2)
  finally have "(2::int) ^ (bit_length n - 1) < 2 ^ k" .
  then have "bit_length n - 1 < k" by (rule power_less_imp_less_exp[rotated]) simp
  then show ?thesis by simp
qed

text \<open>Rounding moves an integer by at most half a unit of the last kept bit.\<close>

lemma round_to_53_near:
  assumes "2 ^ 53 \<le> n"
  defines "P \<equiv> (2::int) ^ (bit_length n - 53)"
  shows "P dvd round_to_53 n \<and> 2 * round_to_53 n \<le> 2 * n + P \<and> n < round_to_53 n + P"
proof -
  have P: "0 < P" by (simp add: P_def)
  define q r where "q = n div P" and "r = n mod P"
  have n: "n = q * P + r" and r: "0 \<le> r" "r < P"
    using P by (simp_all add: q_def r_def)
  have R: "round_to_53 n = (if 2 * r < P \<or> (2 * r = P \<and> even q) then q else q + 1) * P"
    using assms(1) by (simp add: round_to_53_def Let_def q_def r_def P_def)
  show ?thesis
  proof (cases "2 * r < P \<or> (2 * r = P \<and> even q)")
    case True
    with R have "round_to_53 n = q * P" by simp
    with n r True show ?thesis by auto
  next
    case False
    with R have "round_to_53 n = (q + 1) * P" by (simp only: if_False)
    then have "round_to_53 n = q * P + P" by (simp add: algebra_simps)
    with n r False show ?thesis by auto
  qed
qed

lemma dvd_gap: "(0::int) < P \<Longrightarrow> P dvd a \<Longrightarrow> P dvd b \<Longrightarrow> b < a + P \<Longrightarrow> b \<le> a"
proof -
  assume P: "0 < P" "P dvd a" "P dvd b" "b < a + P"
  then have "P dvd (b - a)" by simp
  show "b \<le> a"
  proof (rule ccontr)
    assume "\<not> b \<le> a"
    then have "0 < b - a" by simp
    with \<open>P dvd (b - a)\<close> have "P \<le> b - a" by (rule zdvd_imp_le)
    with P(4) show False by simp
  qed
qed

lemma zakatAmount_exact:
  assumes "uint balance < 2 ^ 52"
  shows "uint (zakatAmount balance) = uint balance div 40"
proof -
  define b where "b = uint balance"
  define q r where "q = b div 40" and "r = b mod 40"
  define N where "N = b * 3602879701896397"
  have b: "0 \<le> b" "b < 2 ^ 52" using assms by (simp_all add: b_def)
  have br: "b = 40 * q + r" "0 \<le> r" "r < 40" "0 \<le> q"
    using b by (simp_all add: q_def r_def)
  have f: "float64_of_u64 balance = b"
    using b by (simp add: float64_of_u64_def round_to_53_def b_def)
  have low: "q * 2 ^ 57 \<le> N" and gap: "N + 2 ^ 51 < (q + 1) * 2 ^ 57"
    using br b unfolding N_def by simp_all
  have main: "round_to_53 N div 2 ^ 57 = q"
  proof (cases "N < 2 ^ 53")
    case True
    then have "round_to_53 N = N" by (simp add: round_to_53_def)
    moreover from True low have "q = 0" using br by simp
    moreover have "0 \<le> N" using b by (simp add: N_def)
    ultimately show ?thesis using True by simp
  next
    case False
    then have big: "2 ^ 53 \<le> N" by simp
    define s where "s = bit_length N - 53"
    define P where "P = (2::int) ^ s"
    have "(0::int) < 2 ^ 53" by simp
    with big have Npos: "0 < N" by linarith
    have "N < 2 ^ 104" using b br unfolding N_def by simp
    with Npos have "bit_length N \<le> 104" by (rule bit_length_le)
    then have s: "s \<le> 51" by (simp add: s_def)
    then have P51: "P \<le> 2 ^ 51" unfolding P_def by (intro power_increasing) simp_all
    have Ppos: "0 < P" by (simp add: P_def)
    from round_to_53_near[OF big]
    have R: "P dvd round_to_53 N" "2 * round_to_53 N \<le> 2 * N + P" "N < round_to_53 N + P"
      by (simp_all add: P_def s_def)
    have "P dvd 2 ^ 57"
      unfolding P_def by (rule le_imp_power_dvd) (use s in simp)
    then have "P dvd q * 2 ^ 57" by simp
    with Ppos R(1) have "q * 2 ^ 57 \<le> round_to_53 N"
      using low R(3) by (intro dvd_gap[of P]) simp_all
    moreover have "round_to_53 N < (q + 1) * 2 ^ 57"
      using R(2) P51 gap by simp
    ultimately show ?thesis
      by (intro int_div_pos_eq[where r = "round_to_53 N - 2 ^ 57 * q"]) simp_all
  qed
  have "zakatAmount balance = word_of_int (round_to_53 N div 2 ^ 57)"
    by (simp only: zakatAmount_def f ZakatRate_mantissa_def N_def)
  then have "uint (zakatAmount balance) = q mod 2 ^ 64"
    by (simp only: main uint_word_of_int take_bit_eq_mod) simp
  moreover have "q < 2 ^ 64" using b br by simp
  ultimately show ?thesis using br by (simp add: q_def b_def)
qed

lemma GetBalance_UTXOs_cong: "UTXOs bc' = UTXOs bc \<Longrightarrow> GetBalance ks bc' w = GetBalance ks bc w"
  by (simp add: GetBalance_def)

lemma SelectUTXOs_no_panic: "SelectUTXOs L ks bc w amount \<noteq> Panic p"
  by (simp add: SelectUTXOs_def Let_def split: prod.splits)

lemma CreateZakatTransaction_cases:
  "CreateZakatTransaction L ob bc w amount =
     (case SelectUTXOs L (range_UTXOs ob) bc w amount of
        Ok (selected, tot) \<Rightarrow>
          Ok \<lparr>ID = ''zakat-'' @ fmt_d (UnixNano ob), SenderID = w, ReceiverID = ''ZAKAT_POOL'',
              Amount = amount, Note = ''Monthly Zakat Deduction (2.5%)'',
              Timestamp = Unix ob, PubKey = ''system'', Signature = ''system'',
              Inputs = map utxo_ref selected,
              Outputs = build_outputs ''ZAKAT_POOL'' w amount tot (''zakat-'' @ fmt_d (UnixNano ob)),
              Type = ''zakat_deduction''\<rparr>
      | Err e \<Rightarrow> Err e
      | Panic p \<Rightarrow> Panic p)"
  by (simp add: CreateZakatTransaction_def Let_def split: outcome.splits prod.splits)

lemma CreateZakatTransaction_Ok:
  "CreateZakatTransaction L ob bc w amount = Ok tx \<Longrightarrow>
   SenderID tx = w \<and> Type tx = ''zakat_deduction'' \<and> Amount tx = amount \<and>
   ReceiverID tx = ''ZAKAT_POOL''"
  by (auto simp: CreateZakatTransaction_cases split: outcome.splits prod.splits)

lemma CreateZakatTransaction_no_panic: "CreateZakatTransaction L ob bc w amount \<noteq> Panic p"
  using SelectUTXOs_no_panic[of L "range_UTXOs ob" bc w amount]
  by (auto simp: CreateZakatTransaction_cases split: outcome.splits prod.splits)

lemma process_wallet_skipped:
  "skipped L now zs (WalletID (wallet v)) \<Longrightarrow> process_wallet L now (bc, zs) v = Ok (bc, zs)"
  unfolding skipped_def process_wallet_def Let_def
  by (elim disjE exE conjE) simp_all

lemma process_wallet_visited:
  assumes "\<not> skipped L now zs (WalletID (wallet v))"
  shows "process_wallet L now (bc, zs) v =
     (if GetBalance (range_balance v) bc (WalletID (wallet v)) < nisabThreshold zs
      then log_id16 (WalletID (wallet v)) (bc, zs)
      else if zakatAmount (GetBalance (range_balance v) bc (WalletID (wallet v))) = 0
      then Ok (bc, zs)
      else
        (case CreateZakatTransaction L (obs v) bc (WalletID (wallet v))
                (zakatAmount (GetBalance (range_balance v) bc (WalletID (wallet v)))) of
           Err e \<Rightarrow> log_id16 (WalletID (wallet v)) (bc, zs)
         | Panic p \<Rightarrow> Panic p
         | Ok tx \<Rightarrow>
             log_id16 (WalletID (wallet v))
               (AddPending tx bc,
                zs\<lparr>lastProcessed := (lastProcessed zs)(WalletID (wallet v) \<mapsto> now)\<rparr>)))"
proof -
  from assms have a: "WalletID (wallet v) \<noteq> ''ZAKAT_POOL''" "WalletID (wallet v) \<noteq> ''COINBASE''"
    and b: "\<not> (case lastProcessed zs (WalletID (wallet v)) of
                  Some t \<Rightarrow> interval_running L now t | None \<Rightarrow> False)"
    by (auto simp: skipped_def split: option.splits)
  show ?thesis
    unfolding process_wallet_def Let_def fst_conv snd_conv
    by (simp only: a b if_False HOL.simp_thms)
qed

text \<open>One round of the loop leaves the state as it is or adds one levy of the visited wallet.\<close>

lemma process_wallet_Ok:
  assumes "process_wallet L now (bc, zs) v = Ok (bc', zs')"
  shows "(bc' = bc \<and> zs' = zs) \<or>
         (\<exists>tx. bc' = AddPending tx bc \<and>
               zs' = zs\<lparr>lastProcessed := (lastProcessed zs)(WalletID (wallet v) \<mapsto> now)\<rparr> \<and>
               SenderID tx = WalletID (wallet v) \<and> Type tx = ''zakat_deduction'' \<and>
               nisabThreshold zs \<le> GetBalance (range_balance v) bc (WalletID (wallet v)))"
proof (cases "skipped L now zs (WalletID (wallet v))")
  case True
  with assms show ?thesis by (simp add: process_wallet_skipped)
next
  case False
  note eq = process_wallet_visited[OF False, of bc]
  show ?thesis
  proof (cases "GetBalance (range_balance v) bc (WalletID (wallet v)) < nisabThreshold zs")
    case True
    with assms eq show ?thesis by (simp add: log_id16_def split: if_splits)
  next
    case nb: False
    show ?thesis
    proof (cases "zakatAmount (GetBalance (range_balance v) bc (WalletID (wallet v))) = 0")
      case True
      with assms eq nb show ?thesis by simp
    next
      case nz: False
      show ?thesis
      proof (cases "CreateZakatTransaction L (obs v) bc (WalletID (wallet v))
                (zakatAmount (GetBalance (range_balance v) bc (WalletID (wallet v))))")
        case (Ok tx)
        from CreateZakatTransaction_Ok[OF Ok] assms eq nb nz Ok show ?thesis
          by (auto simp: log_id16_def not_less split: if_splits)
      next
        case (Err e)
        with assms eq nb nz show ?thesis by (simp add: log_id16_def split: if_splits)
      next
        case (Panic p)
        with assms eq nb nz show ?thesis by simp
      qed
    qed
  qed
qed

lemma process_wallet_no_Err: "process_wallet L now (bc, zs) v \<noteq> Err e"
proof (cases "skipped L now zs (WalletID (wallet v))")
  case True
  then show ?thesis by (simp add: process_wallet_skipped)
next
  case False
  show ?thesis
    unfolding process_wallet_visited[OF False]
    by (simp add: log_id16_def split: outcome.splits)
qed

lemma process_wallet_Panic:
  assumes "process_wallet L now (bc, zs) v = Panic p"
  shows "length (WalletID (wallet v)) < 16"
proof (cases "skipped L now zs (WalletID (wallet v))")
  case True
  with assms show ?thesis by (simp add: process_wallet_skipped)
next
  case False
  from assms show ?thesis
    unfolding process_wallet_visited[OF False]
    using CreateZakatTransaction_no_panic
    by (auto simp: log_id16_def split: if_splits outcome.splits)
qed

lemma zakat_loop_no_Err: "zakat_loop L now visits st \<noteq> Err e"
proof (induction visits arbitrary: st)
  case Nil
  then show ?case by simp
next
  case (Cons v vs)
  obtain bc zs where st: "st = (bc, zs)" by (cases st)
  show ?case
    using Cons.IH process_wallet_no_Err[of L now bc zs v]
    by (simp add: st split: outcome.splits)
qed

lemma zakat_loop_Panic:
  "zakat_loop L now visits st = Panic p \<Longrightarrow> \<exists>v\<in>set visits. length (WalletID (wallet v)) < 16"
proof (induction visits arbitrary: st)
  case Nil
  then show ?case by simp
next
  case (Cons v vs)
  obtain bc zs where st: "st = (bc, zs)" by (cases st)
  show ?case
  proof (cases "process_wallet L now (bc, zs) v")
    case (Ok st')
    with Cons.prems st have "zakat_loop L now vs st' = Panic p" by simp
    from Cons.IH[OF this] show ?thesis by auto
  next
    case (Err e)
    with process_wallet_no_Err show ?thesis by blast
  next
    case (Panic p')
    from process_wallet_Panic[OF this] show ?thesis by simp
  qed
qed

lemma zakat_loop_Cons_Ok:
  "zakat_loop L now (v # vs) (bc, zs) = Ok (bc', zs') \<Longrightarrow>
   \<exists>bc1 zs1. process_wallet L now (bc, zs) v = Ok (bc1, zs1) \<and>
             zakat_loop L now vs (bc1, zs1) = Ok (bc', zs')"
  by (cases "process_wallet L now (bc, zs) v") auto

lemma untouched_refl: "untouched w st st"
  by (simp add: untouched_def)

lemma untouched_trans: "untouched w a b \<Longrightarrow> untouched w b c \<Longrightarrow> untouched w a c"
  unfolding untouched_def
proof (elim conjE exE)
  fix n1 n2
  assume "Pending (fst b) = Pending (fst a) @ n1" "Pending (fst c) = Pending (fst b) @ n2"
    and l: "list_all (\<lambda>tx. SenderID tx \<noteq> w \<and> Type tx = ''zakat_deduction'') n1"
      "list_all (\<lambda>tx. SenderID tx \<noteq> w \<and> Type tx = ''zakat_deduction'') n2"
    and e: "Chain (fst b) = Chain (fst a)" "UTXOs (fst b) = UTXOs (fst a)"
      "nisabThreshold (snd b) = nisabThreshold (snd a)" "lastProcessed (snd b) w = lastProcessed (snd a) w"
      "Chain (fst c) = Chain (fst b)" "UTXOs (fst c) = UTXOs (fst b)"
      "nisabThreshold (snd c) = nisabThreshold (snd b)" "lastProcessed (snd c) w = lastProcessed (snd b) w"
  then have "Pending (fst c) = Pending (fst a) @ (n1 @ n2)"
    "list_all (\<lambda>tx. SenderID tx \<noteq> w \<and> Type tx = ''zakat_deduction'') (n1 @ n2)"
    by simp_all
  with e show "Chain (fst c) = Chain (fst a) \<and> UTXOs (fst c) = UTXOs (fst a) \<and>
     nisabThreshold (snd c) = nisabThreshold (snd a) \<and>
     lastProcessed (snd c) w = lastProcessed (snd a) w \<and>
     (\<exists>new. Pending (fst c) = Pending (fst a) @ new \<and>
        list_all (\<lambda>tx. SenderID tx \<noteq> w \<and> Type tx = ''zakat_deduction'') new)"
    by (intro conjI exI[of _ "n1 @ n2"]) simp_all
qed

lemma process_wallet_untouched:
  assumes "WalletID (wallet v) = w \<longrightarrow> GetBalance (range_balance v) bc w < nisabThreshold zs"
    and step: "process_wallet L now (bc, zs) v = Ok (bc1, zs1)"
  shows "untouched w (bc, zs) (bc1, zs1)"
  using process_wallet_Ok[OF step]
proof (elim disjE exE conjE)
  assume "bc1 = bc" "zs1 = zs"
  then show ?thesis by (simp add: untouched_refl)
next
  fix tx
  assume a: "bc1 = AddPending tx bc"
    "zs1 = zs\<lparr>lastProcessed := (lastProcessed zs)(WalletID (wallet v) \<mapsto> now)\<rparr>"
    "SenderID tx = WalletID (wallet v)" "Type tx = ''zakat_deduction''"
    "nisabThreshold zs \<le> GetBalance (range_balance v) bc (WalletID (wallet v))"
  have ne: "WalletID (wallet v) \<noteq> w"
  proof
    assume "WalletID (wallet v) = w"
    with assms(1) have "GetBalance (range_balance v) bc w < nisabThreshold zs" by simp
    with a(5) \<open>WalletID (wallet v) = w\<close> show False by simp
  qed
  show ?thesis
    unfolding untouched_def fst_conv snd_conv a(1,2)
    using ne a(3,4) by (intro conjI exI[of _ "[tx]"]) (simp_all add: AddPending_def)
qed

lemma zakat_loop_untouched:
  assumes "\<forall>v\<in>set visits. WalletID (wallet v) = w \<longrightarrow>
             GetBalance (range_balance v) bc w < nisabThreshold zs"
    and "zakat_loop L now visits (bc, zs) = Ok (bc', zs')"
  shows "untouched w (bc, zs) (bc', zs')"
  using assms
proof (induction visits arbitrary: bc zs)
  case Nil
  then show ?case by (simp add: untouched_refl)
next
  case (Cons v vs)
  from zakat_loop_Cons_Ok[OF Cons.prems(2)] obtain bc1 zs1 where
    step: "process_wallet L now (bc, zs) v = Ok (bc1, zs1)"
    and rest: "zakat_loop L now vs (bc1, zs1) = Ok (bc', zs')"
    by blast
  have "WalletID (wallet v) = w \<longrightarrow> GetBalance (range_balance v) bc w < nisabThreshold zs"
    using Cons.prems(1) by simp
  from process_wallet_untouched[OF this step]
  have one: "untouched w (bc, zs) (bc1, zs1)" .
  then have same: "UTXOs bc1 = UTXOs bc" "nisabThreshold zs1 = nisabThreshold zs"
    by (simp_all add: untouched_def)
  have "\<forall>v\<in>set vs. WalletID (wallet v) = w \<longrightarrow>
             GetBalance (range_balance v) bc1 w < nisabThreshold zs1"
    using Cons.prems(1) by (simp add: same GetBalance_UTXOs_cong[OF same(1)])
  from Cons.IH[OF this rest] have "untouched w (bc1, zs1) (bc', zs')" .
  with one show ?case by (rule untouched_trans)
qed

lemma filter_untouched:
  "list_all (\<lambda>tx. SenderID tx \<noteq> w \<and> Type tx = ''zakat_deduction'') new \<Longrightarrow>
   filter (levy_of w) new = []"
  by (induction new) auto

lemma ledger_with_400: "UTXOs (ledger_with [400]) =
   [''t0:0'' \<mapsto> \<lparr>ID_utxo = ''t0:0'', Owner = wallet_W, Amount_utxo = 400, OriginTx = ''t0'',
                  Index_utxo = 0, Spent = False\<rparr>]"
  by (simp add: ledger_with_def utxo_key_def fmt_d_0)

lemma wallet_W_length: "length wallet_W = 40"
  by (simp add: wallet_W_def)

lemma wallet_W_not_system: "wallet_W \<noteq> ''ZAKAT_POOL''" "wallet_W \<noteq> ''COINBASE''"
  by (simp_all add: wallet_W_def)

lemma GetBalance_available:
  "GetBalance ks bc w = sum_list (map Amount_utxo (available_utxos ks bc w))"
  by (simp add: GetBalance_def available_utxos_def)

lemma sum_list_mset_cong_u64:
  "mset xs = mset ys \<Longrightarrow> sum_list (map f xs) = (sum_list (map f ys) :: u64)"
  by (metis mset_map sum_mset_sum_list)

lemma zakatAmount_1000: "zakatAmount 1000 = 25"
  by code_simp

lemma build_outputs_eq:
  "amount \<le> tot \<Longrightarrow>
   build_outputs receiver sender amount tot txID =
     new_output receiver amount txID 0 #
       (if amount < tot then [new_output sender (tot - amount) txID 1] else [])"
proof -
  assume "amount \<le> tot"
  then have "(0 < tot - amount) = (amount < tot)"
    by (metis diff_zero not_less_iff_gr_or_eq word_coorder.not_eq_extremum
          word_le_less_eq right_minus_eq word_greater_zero_iff)
  then show ?thesis by (simp add: build_outputs_def Let_def)
qed

lemma fmt_d_7: "fmt_d 7 = ''7''"
  by (simp add: fmt_d_def digits10.simps)

lemma ledger_with_1000: "UTXOs (ledger_with [1000]) =
   [''t0:0'' \<mapsto> \<lparr>ID_utxo = ''t0:0'', Owner = wallet_W, Amount_utxo = 1000, OriginTx = ''t0'',
                  Index_utxo = 0, Spent = False\<rparr>]"
  by (simp add: ledger_with_def utxo_key_def fmt_d_0)

lemma ledger_with_500_500: "UTXOs (ledger_with [500, 500]) =
   [''t0:0'' \<mapsto> \<lparr>ID_utxo = ''t0:0'', Owner = wallet_W, Amount_utxo = 500, OriginTx = ''t0'',
                  Index_utxo = 0, Spent = False\<rparr>,
    ''t1:0'' \<mapsto> \<lparr>ID_utxo = ''t1:0'', Owner = wallet_W, Amount_utxo = 500, OriginTx = ''t1'',
                  Index_utxo = 0, Spent = False\<rparr>]"
  by (simp add: ledger_with_def utxo_key_def fmt_d_0 fmt_d_1 fun_eq_iff)

lemma zakatAmount_big: "zakatAmount 8018511061278159 = 200462776531954"
  by code_simp

subsection \<open>Claim C1: double spends in mined blocks\<close>

text \<open>
  C1 fails in the code: \<open>Mine\<close> takes every pending transaction into the block and checks
  nothing.  Wallet \<open>A\<close> holds 1000 in the one output \<open>faucet-A-0:0\<close>.  Two transfers of 600, to
  \<open>B\<close> and to \<open>C\<close>, are built by \<open>CreateTransaction\<close> while that output is unspent; each passes
  the checks that \<open>ValidateTransaction\<close> makes on the UTXO map, since the pending pool is not
  read, and both are added to the pool.  The mined block holds both transfers, which are
  different transactions with the same input, and afterwards \<open>B\<close> and \<open>C\<close> own 600 each and
  \<open>A\<close> owns 800.
\<close>

theorem Mine_commits_double_spend:
  "reachable double_spend_pool \<and>
   GetBalance [''faucet-A-0:0''] double_spend_pool ''A'' = 1000 \<and>
   CreateTransaction example_lib \<lparr>range_UTXOs = [''faucet-A-0:0''], UnixNano = 1, Unix = 0\<rparr>
       wallets_A_B_C faucet_once ''A'' ''B'' 600 [] [] zero_key =
     Ok (spend_of_A ''tx-1'' ''B'') \<and>
   validate_inputs faucet_once (spend_of_A ''tx-1'' ''B'') = Ok () \<and>
   CreateTransaction example_lib \<lparr>range_UTXOs = [''faucet-A-0:0''], UnixNano = 2, Unix = 0\<rparr>
       wallets_A_B_C (AddPending (spend_of_A ''tx-1'' ''B'') faucet_once) ''A'' ''C'' 600 [] []
       zero_key =
     Ok (spend_of_A ''tx-2'' ''C'') \<and>
   validate_inputs (AddPending (spend_of_A ''tx-1'' ''B'') faucet_once) (spend_of_A ''tx-2'' ''C'') =
     Ok () \<and>
   Mine 0 0 ''M'' double_spend_pool =
     Ok (mined_block 0 0 ''M'' double_spend_pool, double_spend_ledger) \<and>
   reachable double_spend_ledger \<and>
   Chain double_spend_ledger = [genesis 0, mined_block 0 0 ''M'' double_spend_pool] \<and>
   Transactions (mined_block 0 0 ''M'' double_spend_pool) =
     [coinbase 1 0 ''M'', spend_of_A ''tx-1'' ''B'', spend_of_A ''tx-2'' ''C''] \<and>
   Inputs (spend_of_A ''tx-1'' ''B'') = [\<lparr>TxID = ''faucet-A-0'', Index_ref = 0\<rparr>] \<and>
   Inputs (spend_of_A ''tx-2'' ''C'') = [\<lparr>TxID = ''faucet-A-0'', Index_ref = 0\<rparr>] \<and>
   spend_of_A ''tx-1'' ''B'' \<noteq> spend_of_A ''tx-2'' ''C'' \<and>
   iteration_order (UTXOs double_spend_ledger) double_spend_keys \<and>
   GetBalance double_spend_keys double_spend_ledger ''A'' = 800 \<and>
   GetBalance double_spend_keys double_spend_ledger ''B'' = 600 \<and>
   GetBalance double_spend_keys double_spend_ledger ''C'' = 600"
proof -
  have r0: "reachable faucet_once"
    unfolding faucet_once_def by (rule reach_faucet) (rule reach_new)
  have r1: "reachable double_spend_pool"
    unfolding double_spend_pool_def by (intro reach_pending r0)
  have r2: "reachable double_spend_ledger"
    by (rule reach_mine[OF r1 double_spend_mined])
  have b0: "GetBalance [''faucet-A-0:0''] double_spend_pool ''A'' = 1000"
    by (simp add: GetBalance_def range_values_def double_spend_pool_fields faucet_once_UTXOs)
  have c1: "CreateTransaction example_lib \<lparr>range_UTXOs = [''faucet-A-0:0''], UnixNano = 1, Unix = 0\<rparr>
       wallets_A_B_C faucet_once ''A'' ''B'' 600 [] [] zero_key = Ok (spend_of_A ''tx-1'' ''B'')"
    by (simp add: spend_of_A_created fmt_d_1)
  have c2: "CreateTransaction example_lib \<lparr>range_UTXOs = [''faucet-A-0:0''], UnixNano = 2, Unix = 0\<rparr>
       wallets_A_B_C (AddPending (spend_of_A ''tx-1'' ''B'') faucet_once) ''A'' ''C'' 600 [] []
       zero_key = Ok (spend_of_A ''tx-2'' ''C'')"
    by (simp add: CreateTransaction_AddPending spend_of_A_created fmt_d_2)
  have v2: "validate_inputs (AddPending (spend_of_A ''tx-1'' ''B'') faucet_once)
      (spend_of_A ''tx-2'' ''C'') = Ok ()"
    by (simp add: validate_inputs_AddPending spend_of_A_valid)
  have i: "Inputs (spend_of_A ''tx-1'' ''B'') = [\<lparr>TxID = ''faucet-A-0'', Index_ref = 0\<rparr>]"
    "Inputs (spend_of_A ''tx-2'' ''C'') = [\<lparr>TxID = ''faucet-A-0'', Index_ref = 0\<rparr>]"
    by (simp_all add: spend_of_A_def)
  have "ID (spend_of_A ''tx-1'' ''B'') \<noteq> ID (spend_of_A ''tx-2'' ''C'')"
    by (simp add: spend_of_A_def)
  then have ne: "spend_of_A ''tx-1'' ''B'' \<noteq> spend_of_A ''tx-2'' ''C''"
    by auto
  have bal: "GetBalance double_spend_keys double_spend_ledger ''A'' = 800"
    "GetBalance double_spend_keys double_spend_ledger ''B'' = 600"
    "GetBalance double_spend_keys double_spend_ledger ''C'' = 600"
    by (simp_all add: GetBalance_def double_spend_values)
  from r1 b0 c1 spend_of_A_valid[of "''tx-1''" "''B''"] c2 v2 double_spend_mined r2
    double_spend_ledger_fields(1) double_spend_block i ne double_spend_order bal
  show ?thesis by blast
qed

subsection \<open>Claim C2: the Merkle root and the order of transactions\<close>

text \<open>
  C2, as stated, fails: \<open>computeMerkle\<close> hashes the ids in the order of the list it is given
  and sorts nothing.  The lists \<open>[a, b]\<close> and \<open>[b, a]\<close> of the transactions with ids \<open>a\<close> and
  \<open>b\<close> are permutations of each other and have different roots.
\<close>

theorem computeMerkle_order_counterexample:
  "mset [tx_with_id ''a'', tx_with_id ''b''] = mset [tx_with_id ''b'', tx_with_id ''a''] \<and>
   computeMerkle [tx_with_id ''a'', tx_with_id ''b''] =
     ''62af5c3cb8da3e4f25061e829ebeea5c7513c54949115b1acc225930a90154da'' \<and>
   computeMerkle [tx_with_id ''b'', tx_with_id ''a''] =
     ''ab19ec537f09499b26f0f62eed7aefad46ab9f498e06a7328ce8e8ef90da6d86'' \<and>
   computeMerkle [tx_with_id ''a'', tx_with_id ''b''] \<noteq>
     computeMerkle [tx_with_id ''b'', tx_with_id ''a'']"
proof -
  have ida: "ID (tx_with_id ''a'') = ''a''" and idb: "ID (tx_with_id ''b'') = ''b''"
    by (simp_all add: tx_with_id_def)
  have ab: "computeMerkle [tx_with_id ''a'', tx_with_id ''b''] =
     ''62af5c3cb8da3e4f25061e829ebeea5c7513c54949115b1acc225930a90154da''"
    unfolding computeMerkle_pair ida idb sha256_of_a sha256_of_b by (rule sha256_of_a_b)
  have ba: "computeMerkle [tx_with_id ''b'', tx_with_id ''a''] =
     ''ab19ec537f09499b26f0f62eed7aefad46ab9f498e06a7328ce8e8ef90da6d86''"
    unfolding computeMerkle_pair ida idb sha256_of_a sha256_of_b by (rule sha256_of_b_a)
  have "mset [tx_with_id ''a'', tx_with_id ''b''] = mset [tx_with_id ''b'', tx_with_id ''a'']"
    by (simp add: add_mset_commute)
  moreover have "computeMerkle [tx_with_id ''a'', tx_with_id ''b''] \<noteq>
     computeMerkle [tx_with_id ''b'', tx_with_id ''a'']"
    unfolding ab ba by simp
  ultimately show ?thesis using ab ba by simp
qed

text \<open>
  C2, amended.  The Merkle root depends on the sequence of transaction ids only: two lists
  with the same ids in the same order have the same root, whatever the other fields hold.
  The sorting of ids is in \<open>hashBlock\<close>: two blocks that agree on index, timestamp, previous
  hash and nonce, and whose transaction ids are permutations of each other, have the same
  block hash.
\<close>

theorem computeMerkle_list_order:
  "(map ID txs = map ID txs' \<longrightarrow> computeMerkle txs = computeMerkle txs') \<and>
   (mset (map ID (Transactions b)) = mset (map ID (Transactions b')) \<and>
    Index_block b = Index_block b' \<and> Timestamp_block b = Timestamp_block b' \<and>
    PreviousHash b = PreviousHash b' \<and> Nonce b = Nonce b' \<longrightarrow>
      hashBlock b = hashBlock b')"
proof (intro conjI impI)
  assume ids: "map ID txs = map ID txs'"
  then have "(txs = []) = (txs' = [])" by (metis map_is_Nil_conv)
  moreover have "map (\<lambda>t. sha256_hex (ID t)) txs = map sha256_hex (map ID txs)"
    "map (\<lambda>t. sha256_hex (ID t)) txs' = map sha256_hex (map ID txs')"
    by simp_all
  ultimately show "computeMerkle txs = computeMerkle txs'"
    using ids unfolding computeMerkle_def by presburger
next
  assume a: "mset (map ID (Transactions b)) = mset (map ID (Transactions b')) \<and>
    Index_block b = Index_block b' \<and> Timestamp_block b = Timestamp_block b' \<and>
    PreviousHash b = PreviousHash b' \<and> Nonce b = Nonce b'"
  then have "sort (map ID (Transactions b)) = sort (map ID (Transactions b'))"
    by (intro sort_mset_cong) simp
  with a show "hashBlock b = hashBlock b'"
    by (simp add: hashBlock_def)
qed

theorem computeMerkle_list_order_witness:
  "map ID [tx_with_id ''a'', tx_with_id ''b''] =
     map ID [(tx_with_id ''a'')\<lparr>Note := ''x''\<rparr>, tx_with_id ''b''] \<and>
   computeMerkle [tx_with_id ''a'', tx_with_id ''b''] =
     computeMerkle [(tx_with_id ''a'')\<lparr>Note := ''x''\<rparr>, tx_with_id ''b''] \<and>
   mset (map ID (Transactions (block_with [tx_with_id ''a'', tx_with_id ''b'']))) =
     mset (map ID (Transactions (block_with [tx_with_id ''b'', tx_with_id ''a'']))) \<and>
   hashBlock (block_with [tx_with_id ''a'', tx_with_id ''b'']) =
     hashBlock (block_with [tx_with_id ''b'', tx_with_id ''a''])"
proof -
  let ?a = "tx_with_id ''a''" and ?b = "tx_with_id ''b''"
  have ids: "map ID [?a, ?b] = map ID [?a\<lparr>Note := ''x''\<rparr>, ?b]"
    by simp
  have ms: "mset (map ID (Transactions (block_with [?a, ?b]))) =
     mset (map ID (Transactions (block_with [?b, ?a]))) \<and>
    Index_block (block_with [?a, ?b]) = Index_block (block_with [?b, ?a]) \<and>
    Timestamp_block (block_with [?a, ?b]) = Timestamp_block (block_with [?b, ?a]) \<and>
    PreviousHash (block_with [?a, ?b]) = PreviousHash (block_with [?b, ?a]) \<and>
    Nonce (block_with [?a, ?b]) = Nonce (block_with [?b, ?a])"
    by (simp add: block_with_def add_mset_commute)
  note order = computeMerkle_list_order[of "[?a, ?b]" "[?a\<lparr>Note := ''x''\<rparr>, ?b]"
      "block_with [?a, ?b]" "block_with [?b, ?a]"]
  from order ids have "computeMerkle [?a, ?b] = computeMerkle [?a\<lparr>Note := ''x''\<rparr>, ?b]"
    by blast
  moreover from order ms have "hashBlock (block_with [?a, ?b]) = hashBlock (block_with [?b, ?a])"
    by blast
  ultimately show ?thesis using ids ms by blast
qed

subsection \<open>Claim C3: what \<open>ValidateTransaction\<close> accepts\<close>

text \<open>
  C3 fails in the code in two places.  The sums of the input and output amounts are compared
  as 64-bit values: the transaction \<open>overflow_tx\<close> has no inputs and two outputs of \<open>2^63\<close>, its
  output amounts add up to \<open>2^64\<close>, and on every ledger \<open>ValidateTransaction\<close> accepts it as
  soon as its signature verifies.  And a failure is not always an error: a public key that
  decodes to other than 32 bytes (here the empty one) makes \<open>ed25519.Verify\<close> panic.
\<close>

theorem ValidateTransaction_overflow_and_panic:
  "ValidateTransaction L bc (overflow_tx pubHex sigHex) =
     (case VerifySignature L pubHex
             (MarshalPayload L (SenderID (overflow_tx pubHex sigHex)) ''B'' 9223372036854775808 0 [])
             sigHex of
        Ok valid \<Rightarrow> if valid then Ok () else Err InvalidSignature
      | Err e \<Rightarrow> Err e
      | Panic p \<Rightarrow> Panic p) \<and>
   Inputs (overflow_tx pubHex sigHex) = [] \<and>
   (\<Sum>out\<leftarrow>Outputs (overflow_tx pubHex sigHex). unat (Amount_utxo out)) = 2 ^ 64 \<and>
   ValidateTransaction L bc (tx\<lparr>PubKey := [], Signature := []\<rparr>) = Panic BadPublicKeyLength"
proof -
  let ?tx = "overflow_tx pubHex sigHex"
  have f: "PubKey ?tx = pubHex" "Signature ?tx = sigHex" "ReceiverID ?tx = ''B''"
    "Amount ?tx = 9223372036854775808" "Timestamp ?tx = 0" "Note ?tx = []"
    by (simp_all add: overflow_tx_def)
  have s: "WalletIDFromPub pubHex = Some w \<Longrightarrow> SenderID ?tx = w" for w
    by (simp add: overflow_tx_def)
  have "ValidateTransaction L bc ?tx =
     (case VerifySignature L pubHex
             (MarshalPayload L (SenderID ?tx) ''B'' 9223372036854775808 0 []) sigHex of
        Ok valid \<Rightarrow> if valid then Ok () else Err InvalidSignature
      | Err e \<Rightarrow> Err e
      | Panic p \<Rightarrow> Panic p)"
    unfolding ValidateTransaction_def Let_def f validate_inputs_overflow
    by (auto simp: s VerifySignature_def WalletIDFromPub_def split: outcome.splits option.splits)
  moreover have "Inputs ?tx = []"
    by (simp add: overflow_tx_def)
  moreover have "(\<Sum>out\<leftarrow>Outputs ?tx. unat (Amount_utxo out)) = 2 ^ 64"
    by (simp add: overflow_tx_def new_output_def)
  moreover have "ValidateTransaction L bc (tx\<lparr>PubKey := [], Signature := []\<rparr>) =
      Panic BadPublicKeyLength"
    by (simp add: ValidateTransaction_def VerifySignature_def)
  ultimately show ?thesis by blast
qed

subsection \<open>Claim C4: coin selection and the transfer it feeds\<close>

text \<open>
  C4, as stated, fails where the amounts of the wallet's unspent outputs add up to \<open>2^64\<close> or
  more: the running total is a 64-bit sum and wraps.  A wallet with two unspent outputs of
  \<open>2^63\<close> owns \<open>2^64\<close> in all; a request of \<open>2^63 + 1\<close> is below that, and the total of the two
  outputs reaches the request, but the running total is \<open>2^63\<close> after the first output and 0
  after the second, and the call fails with \<open>InsufficientBalance\<close>.
\<close>

theorem SelectUTXOs_overflow_counterexample:
  "sort_Slice_contract (sort_Slice example_lib) \<and>
   iteration_order (UTXOs (ledger_with [9223372036854775808, 9223372036854775808]))
     [''t0:0'', ''t1:0''] \<and>
   available_utxos [''t0:0'', ''t1:0'']
       (ledger_with [9223372036854775808, 9223372036854775808]) wallet_W =
     [\<lparr>ID_utxo = ''t0:0'', Owner = wallet_W, Amount_utxo = 9223372036854775808,
       OriginTx = ''t0'', Index_utxo = 0, Spent = False\<rparr>,
      \<lparr>ID_utxo = ''t1:0'', Owner = wallet_W, Amount_utxo = 9223372036854775808,
       OriginTx = ''t1'', Index_utxo = 0, Spent = False\<rparr>] \<and>
   sum_list (map (unat \<circ> Amount_utxo)
       (available_utxos [''t0:0'', ''t1:0'']
          (ledger_with [9223372036854775808, 9223372036854775808]) wallet_W)) =
     18446744073709551616 \<and>
   unat (9223372036854775809 :: u64) = 9223372036854775809 \<and>
   SelectUTXOs example_lib [''t0:0'', ''t1:0'']
       (ledger_with [9223372036854775808, 9223372036854775808]) wallet_W 9223372036854775809 =
     Err InsufficientBalance"
proof -
  let ?bc = "ledger_with [9223372036854775808, 9223372036854775808]"
  let ?ks = "[''t0:0'', ''t1:0'']"
  have c: "sort_Slice_contract (sort_Slice example_lib)"
    by (simp add: example_lib_def insertionSort_contract)
  have i: "iteration_order (UTXOs ?bc) ?ks"
    by (auto simp: iteration_order_def ledger_with_overflow)
  have av: "available_utxos ?ks ?bc wallet_W =
     [\<lparr>ID_utxo = ''t0:0'', Owner = wallet_W, Amount_utxo = 9223372036854775808,
       OriginTx = ''t0'', Index_utxo = 0, Spent = False\<rparr>,
      \<lparr>ID_utxo = ''t1:0'', Owner = wallet_W, Amount_utxo = 9223372036854775808,
       OriginTx = ''t1'', Index_utxo = 0, Spent = False\<rparr>]"
    by (simp add: available_utxos_def range_values_def ledger_with_overflow)
  have s: "sum_list (map (unat \<circ> Amount_utxo) (available_utxos ?ks ?bc wallet_W)) =
     18446744073709551616"
    by (simp add: av)
  have a: "unat (9223372036854775809 :: u64) = 9223372036854775809"
    by simp
  have r: "SelectUTXOs example_lib ?ks ?bc wallet_W 9223372036854775809 = Err InsufficientBalance"
    by (simp add: SelectUTXOs_def av example_lib_def insertionSort_def)
  from c i av s a r show ?thesis by blast
qed

text \<open>
  C4, amended.  For a sort that meets the contract of \<open>sort.Slice\<close> and any order of the
  \<open>range\<close> loop: the slice \<open>SelectUTXOs\<close> works on holds exactly the unspent outputs of the
  wallet, in descending order of amount.  The selection is the shortest prefix of that slice
  whose running total reaches the requested amount, with its total; when no prefix reaches
  it, the call fails with \<open>InsufficientBalance\<close>, and it does so whenever the amounts of all
  these outputs add up to less than the request.  The running total is a 64-bit sum.  When
  the amounts of the wallet's unspent outputs add up to less than \<open>2^64\<close>, it is the exact sum:
  the amounts selected add up to the request or more, those of every shorter prefix to less,
  and the call fails only if all amounts add up to less than the request.  A transfer built
  by \<open>CreateTransaction\<close> has the selected outputs as its inputs; its first output is owned by
  the receiver and has the requested amount; a second output, owned by the sender, has the
  total less the amount, and is there only if that is not zero.  With unspent outputs of 70,
  30 and 10 and a request of 65, the selection is the output of 70, and the outputs of the
  transfer are 65 owned by the receiver and 5 owned by the sender.
\<close>

theorem SelectUTXOs_greedy:
  assumes "sort_Slice_contract (sort_Slice L)"
    and "iteration_order (UTXOs bc) ks"
    and "range_UTXOs ob = ks"
  shows
    "set (sort_Slice L (available_utxos ks bc w)) =
       {u \<in> ran (UTXOs bc). Owner u = w \<and> \<not> Spent u} \<and>
     descending (sort_Slice L (available_utxos ks bc w)) \<and>
     (case SelectUTXOs L ks bc w amount of
        Ok (selected, tot) \<Rightarrow>
          prefix selected (sort_Slice L (available_utxos ks bc w)) \<and>
          tot = sum_list (map Amount_utxo selected) \<and> amount \<le> tot \<and>
          (\<forall>p. strict_prefix p selected \<longrightarrow> sum_list (map Amount_utxo p) < amount)
      | Err e \<Rightarrow>
          e = InsufficientBalance \<and>
          (\<forall>p. prefix p (sort_Slice L (available_utxos ks bc w)) \<longrightarrow>
               sum_list (map Amount_utxo p) < amount)
      | Panic p \<Rightarrow> False) \<and>
     (sum_list (map (unat \<circ> Amount_utxo) (available_utxos ks bc w)) < 2 ^ 64 \<longrightarrow>
        (case SelectUTXOs L ks bc w amount of
           Ok (selected, tot) \<Rightarrow>
             unat tot = sum_list (map (unat \<circ> Amount_utxo) selected) \<and>
             unat amount \<le> sum_list (map (unat \<circ> Amount_utxo) selected) \<and>
             (\<forall>p. strict_prefix p selected \<longrightarrow>
                  sum_list (map (unat \<circ> Amount_utxo) p) < unat amount)
         | Err e \<Rightarrow>
             sum_list (map (unat \<circ> Amount_utxo) (available_utxos ks bc w)) < unat amount
         | Panic p \<Rightarrow> False)) \<and>
     (sum_list (map (unat \<circ> Amount_utxo) (available_utxos ks bc w)) < unat amount \<longrightarrow>
        SelectUTXOs L ks bc w amount = Err InsufficientBalance) \<and>
     (\<forall>tx. CreateTransaction L ob ws bc w receiver amount note pub priv = Ok tx \<longrightarrow>
        (\<exists>selected tot. SelectUTXOs L ks bc w amount = Ok (selected, tot) \<and>
           SenderID tx = w \<and> ReceiverID tx = receiver \<and> Amount tx = amount \<and>
           Inputs tx = map (\<lambda>utxo. \<lparr>TxID = OriginTx utxo, Index_ref = Index_utxo utxo\<rparr>) selected \<and>
           Outputs tx =
             \<lparr>ID_utxo = [], Owner = receiver, Amount_utxo = amount, OriginTx = ID tx,
              Index_utxo = 0, Spent = False\<rparr> #
             (if amount < tot
              then [\<lparr>ID_utxo = [], Owner = w, Amount_utxo = tot - amount, OriginTx = ID tx,
                     Index_utxo = 1, Spent = False\<rparr>]
              else []) \<and>
           unat (tot - amount) = unat tot - unat amount)) \<and>
     (mset (map Amount_utxo (available_utxos ks bc w)) = {#70, 30, 10#} \<longrightarrow>
        (\<exists>u. u \<in> set (available_utxos ks bc w) \<and> Amount_utxo u = 70 \<and>
           SelectUTXOs L ks bc w 65 = Ok ([u], 70) \<and>
           (\<forall>tx. CreateTransaction L ob ws bc w receiver 65 note pub priv = Ok tx \<longrightarrow>
              Inputs tx = [\<lparr>TxID = OriginTx u, Index_ref = Index_utxo u\<rparr>] \<and>
              Outputs tx =
                [\<lparr>ID_utxo = [], Owner = receiver, Amount_utxo = 65, OriginTx = ID tx,
                  Index_utxo = 0, Spent = False\<rparr>,
                 \<lparr>ID_utxo = [], Owner = w, Amount_utxo = 5, OriginTx = ID tx,
                  Index_utxo = 1, Spent = False\<rparr>])))"
proof -
  let ?xs = "sort_Slice L (available_utxos ks bc w)"
  have m: "mset ?xs = mset (available_utxos ks bc w)" and d: "descending ?xs"
    using assms(1) by (simp_all add: sort_Slice_contract_def)
  have s: "set ?xs = {u \<in> ran (UTXOs bc). Owner u = w \<and> \<not> Spent u}"
    using mset_eq_setD[OF m] set_available[OF assms(2)] by simp
  note outcome = SelectUTXOs_outcome[of L ks bc w amount]
  note exact = SelectUTXOs_exact[OF assms(1), of ks bc w amount]
  have insufficient:
    "sum_list (map (unat \<circ> Amount_utxo) (available_utxos ks bc w)) < unat amount \<longrightarrow>
       SelectUTXOs L ks bc w amount = Err InsufficientBalance"
    using SelectUTXOs_insufficient[OF assms(1)] by blast
  have built: "\<exists>selected tot. SelectUTXOs L ks bc w a = Ok (selected, tot) \<and>
           SenderID tx = w \<and> ReceiverID tx = receiver \<and> Amount tx = a \<and>
           Inputs tx = map (\<lambda>utxo. \<lparr>TxID = OriginTx utxo, Index_ref = Index_utxo utxo\<rparr>) selected \<and>
           Outputs tx =
             \<lparr>ID_utxo = [], Owner = receiver, Amount_utxo = a, OriginTx = ID tx,
              Index_utxo = 0, Spent = False\<rparr> #
             (if a < tot
              then [\<lparr>ID_utxo = [], Owner = w, Amount_utxo = tot - a, OriginTx = ID tx,
                     Index_utxo = 1, Spent = False\<rparr>]
              else []) \<and>
           unat (tot - a) = unat tot - unat a"
    if "CreateTransaction L ob ws bc w receiver a note pub priv = Ok tx" for tx a
  proof -
    from CreateTransaction_Ok[OF that] assms(3)
    obtain selected tot where sel: "SelectUTXOs L ks bc w a = Ok (selected, tot)"
      and io: "Inputs tx = map utxo_ref selected"
        "Outputs tx = build_outputs receiver w a tot (ID tx)"
        "SenderID tx = w" "ReceiverID tx = receiver" "Amount tx = a"
      by blast
    from SelectUTXOs_outcome[of L ks bc w a] sel have le: "a \<le> tot" by auto
    then have "(0 < tot - a) = (a < tot)"
      by (metis diff_zero not_less_iff_gr_or_eq word_coorder.not_eq_extremum
            word_le_less_eq right_minus_eq word_greater_zero_iff)
    moreover from le have "unat (tot - a) = unat tot - unat a"
      by (rule unat_sub)
    ultimately show ?thesis using sel io
      by (simp add: build_outputs_def new_output_def utxo_ref_def[abs_def] Let_def)
  qed
  have scenario: "\<exists>u. u \<in> set (available_utxos ks bc w) \<and> Amount_utxo u = 70 \<and>
           SelectUTXOs L ks bc w 65 = Ok ([u], 70) \<and>
           (\<forall>tx. CreateTransaction L ob ws bc w receiver 65 note pub priv = Ok tx \<longrightarrow>
              Inputs tx = [\<lparr>TxID = OriginTx u, Index_ref = Index_utxo u\<rparr>] \<and>
              Outputs tx =
                [\<lparr>ID_utxo = [], Owner = receiver, Amount_utxo = 65, OriginTx = ID tx,
                  Index_utxo = 0, Spent = False\<rparr>,
                 \<lparr>ID_utxo = [], Owner = w, Amount_utxo = 5, OriginTx = ID tx,
                  Index_utxo = 1, Spent = False\<rparr>])"
    if "mset (map Amount_utxo (available_utxos ks bc w)) = {#70, 30, 10#}"
  proof -
    from scenario_selection[OF assms(1) that]
    obtain u where u: "u \<in> set (available_utxos ks bc w)" "Amount_utxo u = 70"
      "SelectUTXOs L ks bc w 65 = Ok ([u], 70)"
      by blast
    have "Inputs tx = [\<lparr>TxID = OriginTx u, Index_ref = Index_utxo u\<rparr>] \<and>
          Outputs tx =
            [\<lparr>ID_utxo = [], Owner = receiver, Amount_utxo = 65, OriginTx = ID tx,
              Index_utxo = 0, Spent = False\<rparr>,
             \<lparr>ID_utxo = [], Owner = w, Amount_utxo = 5, OriginTx = ID tx,
              Index_utxo = 1, Spent = False\<rparr>]"
      if "CreateTransaction L ob ws bc w receiver 65 note pub priv = Ok tx" for tx
      using built[OF that] u(3) by simp
    with u show ?thesis by blast
  qed
  from s d outcome exact insufficient built scenario show ?thesis
    by blast
qed

theorem SelectUTXOs_greedy_witness:
  "sort_Slice_contract (sort_Slice example_lib) \<and>
   iteration_order (UTXOs ledger_70_30_10) [''t3:0'', ''t1:0'', ''t2:0''] \<and>
   range_UTXOs obs_312 = [''t3:0'', ''t1:0'', ''t2:0''] \<and>
   mset (map Amount_utxo (available_utxos [''t3:0'', ''t1:0'', ''t2:0''] ledger_70_30_10 ''A'')) =
     {#70, 30, 10#} \<and>
   sum_list (map (unat \<circ> Amount_utxo)
       (available_utxos [''t3:0'', ''t1:0'', ''t2:0''] ledger_70_30_10 ''A'')) < 2 ^ 64 \<and>
   SelectUTXOs example_lib [''t3:0'', ''t1:0'', ''t2:0''] ledger_70_30_10 ''A'' 65 =
     Ok ([\<lparr>ID_utxo = ''t1:0'', Owner = ''A'', Amount_utxo = 70, OriginTx = ''t1'',
           Index_utxo = 0, Spent = False\<rparr>], 70) \<and>
   (\<exists>tx. CreateTransaction example_lib obs_312 wallets_A_B ledger_70_30_10 ''A'' ''B'' 65 [] [] zero_key
           = Ok tx \<and>
         Inputs tx = [\<lparr>TxID = ''t1'', Index_ref = 0\<rparr>] \<and>
         Outputs tx =
           [\<lparr>ID_utxo = [], Owner = ''B'', Amount_utxo = 65, OriginTx = ID tx,
             Index_utxo = 0, Spent = False\<rparr>,
            \<lparr>ID_utxo = [], Owner = ''A'', Amount_utxo = 5, OriginTx = ID tx,
             Index_utxo = 1, Spent = False\<rparr>])"
proof -
  let ?ks = "[''t3:0'', ''t1:0'', ''t2:0'']"
  have c: "sort_Slice_contract (sort_Slice example_lib)"
    by (simp add: example_lib_def insertionSort_contract)
  have i: "iteration_order (UTXOs ledger_70_30_10) ?ks"
    by (auto simp: iteration_order_def ledger_70_30_10_def)
  have r: "range_UTXOs obs_312 = ?ks"
    by (simp add: obs_312_def)
  have av: "available_utxos ?ks ledger_70_30_10 ''A'' =
      [utxo_of_A ''t3'' 10, utxo_of_A ''t1'' 70, utxo_of_A ''t2'' 30]"
    by (simp add: available_utxos_def range_values_def ledger_70_30_10_def utxo_of_A_def)
  have m: "mset (map Amount_utxo (available_utxos ?ks ledger_70_30_10 ''A'')) = {#70, 30, 10#}"
    by (simp add: av utxo_of_A_def add_mset_commute)
  have b: "sum_list (map (unat \<circ> Amount_utxo) (available_utxos ?ks ledger_70_30_10 ''A'')) < 2 ^ 64"
    by (simp add: av utxo_of_A_def)
  have sel: "SelectUTXOs example_lib ?ks ledger_70_30_10 ''A'' 65 =
     Ok ([\<lparr>ID_utxo = ''t1:0'', Owner = ''A'', Amount_utxo = 70, OriginTx = ''t1'',
           Index_utxo = 0, Spent = False\<rparr>], 70)"
    by (simp add: SelectUTXOs_def av example_lib_def insertionSort_def utxo_of_A_def)
  obtain priv where key: "DecodeString zero_key = Some priv" "length priv = 64"
    using zero_key_decodes by auto
  obtain tx where tx:
    "CreateTransaction example_lib obs_312 wallets_A_B ledger_70_30_10 ''A'' ''B'' 65 [] [] zero_key = Ok tx"
    by (simp add: CreateTransaction_def wallets_A_B_def r sel SignWithPriv_def key Let_def)
  note greedy = SelectUTXOs_greedy[OF c i r, of "''A''" 65 wallets_A_B "''B''" "[]" "[]" zero_key]
  from greedy m obtain u where u: "SelectUTXOs example_lib ?ks ledger_70_30_10 ''A'' 65 = Ok ([u], 70)"
    and out: "\<forall>tx. CreateTransaction example_lib obs_312 wallets_A_B ledger_70_30_10 ''A'' ''B'' 65 [] [] zero_key = Ok tx \<longrightarrow>
              Inputs tx = [\<lparr>TxID = OriginTx u, Index_ref = Index_utxo u\<rparr>] \<and>
              Outputs tx =
                [\<lparr>ID_utxo = [], Owner = ''B'', Amount_utxo = 65, OriginTx = ID tx,
                  Index_utxo = 0, Spent = False\<rparr>,
                 \<lparr>ID_utxo = [], Owner = ''A'', Amount_utxo = 5, OriginTx = ID tx,
                  Index_utxo = 1, Spent = False\<rparr>]"
    by blast
  from u sel have "u = \<lparr>ID_utxo = ''t1:0'', Owner = ''A'', Amount_utxo = 70, OriginTx = ''t1'',
           Index_utxo = 0, Spent = False\<rparr>" by simp
  with out tx have "Inputs tx = [\<lparr>TxID = ''t1'', Index_ref = 0\<rparr>] \<and>
         Outputs tx =
           [\<lparr>ID_utxo = [], Owner = ''B'', Amount_utxo = 65, OriginTx = ID tx,
             Index_utxo = 0, Spent = False\<rparr>,
            \<lparr>ID_utxo = [], Owner = ''A'', Amount_utxo = 5, OriginTx = ID tx,
             Index_utxo = 1, Spent = False\<rparr>]"
    by simp
  with c i r m b sel tx show ?thesis by blast
qed

subsection \<open>Claim C5: repeated coin selection\<close>

text \<open>
  C5, as stated, fails when two unspent outputs of the wallet have the same amount: the
  slice is filled in the order of a \<open>range\<close> loop over a Go map, which differs from call to call,
  and the sort keeps equal amounts in the order it finds them.  After faucet calls in two
  different seconds wallet \<open>A\<close> owns two outputs of 1000, and a request of 1000 selects the one
  or the other.
\<close>

theorem SelectUTXOs_tie_counterexample:
  "reachable faucet_two_seconds \<and>
   iteration_order (UTXOs faucet_two_seconds) [''faucet-A-0:0'', ''faucet-A-1:0''] \<and>
   iteration_order (UTXOs faucet_two_seconds) [''faucet-A-1:0'', ''faucet-A-0:0''] \<and>
   SelectUTXOs example_lib [''faucet-A-0:0'', ''faucet-A-1:0''] faucet_two_seconds ''A'' 1000 =
     Ok ([\<lparr>ID_utxo = ''faucet-A-0:0'', Owner = ''A'', Amount_utxo = 1000,
           OriginTx = ''faucet-A-0'', Index_utxo = 0, Spent = False\<rparr>], 1000) \<and>
   SelectUTXOs example_lib [''faucet-A-1:0'', ''faucet-A-0:0''] faucet_two_seconds ''A'' 1000 =
     Ok ([\<lparr>ID_utxo = ''faucet-A-1:0'', Owner = ''A'', Amount_utxo = 1000,
           OriginTx = ''faucet-A-1'', Index_utxo = 0, Spent = False\<rparr>], 1000) \<and>
   SelectUTXOs example_lib [''faucet-A-0:0'', ''faucet-A-1:0''] faucet_two_seconds ''A'' 1000 \<noteq>
   SelectUTXOs example_lib [''faucet-A-1:0'', ''faucet-A-0:0''] faucet_two_seconds ''A'' 1000"
proof -
  let ?u0 = "\<lparr>ID_utxo = ''faucet-A-0:0'', Owner = ''A'', Amount_utxo = 1000,
           OriginTx = ''faucet-A-0'', Index_utxo = 0, Spent = False\<rparr>"
  let ?u1 = "\<lparr>ID_utxo = ''faucet-A-1:0'', Owner = ''A'', Amount_utxo = 1000,
           OriginTx = ''faucet-A-1'', Index_utxo = 0, Spent = False\<rparr>"
  have r: "reachable faucet_two_seconds"
    unfolding faucet_two_seconds_def faucet_once_def
    by (intro reach_faucet reach_new)
  have u: "UTXOs faucet_two_seconds = [''faucet-A-0:0'' \<mapsto> ?u0, ''faucet-A-1:0'' \<mapsto> ?u1]"
    by (simp add: faucet_two_seconds_def faucet_once_def CreateFaucetUTXO_def NewBlockchain_def
          fmt_d_0 fmt_d_1 FaucetAmount_def Let_def)
  have i01: "iteration_order (UTXOs faucet_two_seconds) [''faucet-A-0:0'', ''faucet-A-1:0'']"
    and i10: "iteration_order (UTXOs faucet_two_seconds) [''faucet-A-1:0'', ''faucet-A-0:0'']"
    by (auto simp: iteration_order_def u)
  have s01: "SelectUTXOs example_lib [''faucet-A-0:0'', ''faucet-A-1:0''] faucet_two_seconds ''A'' 1000 =
      Ok ([?u0], 1000)"
    by (simp add: SelectUTXOs_def available_utxos_def range_values_def u example_lib_def
          insertionSort_def)
  have s10: "SelectUTXOs example_lib [''faucet-A-1:0'', ''faucet-A-0:0''] faucet_two_seconds ''A'' 1000 =
      Ok ([?u1], 1000)"
    by (simp add: SelectUTXOs_def available_utxos_def range_values_def u example_lib_def
          insertionSort_def)
  have "Ok ([?u0], 1000 :: u64) \<noteq> Ok ([?u1], 1000)"
    by simp
  with r i01 i10 s01 s10 show ?thesis by simp
qed

text \<open>
  C5, amended.  For a sort that meets the contract of \<open>sort.Slice\<close>, two calls of \<open>SelectUTXOs\<close>
  on one ledger state, for the same wallet and amount, both fail or both succeed; when they
  succeed they return the same total and selections with the same amounts in the same,
  descending, order.  Which of several outputs of equal amount is selected depends on the
  order of the \<open>range\<close> loop; when the amounts of the wallet's unspent outputs differ from each
  other, the two calls return the same selection.
\<close>

theorem SelectUTXOs_repeatable:
  assumes "sort_Slice_contract (sort_Slice L)"
    and "iteration_order (UTXOs bc) ks1" and "iteration_order (UTXOs bc) ks2"
  shows
    "(case SelectUTXOs L ks1 bc w amount of
        Ok (s1, t1) \<Rightarrow>
          (\<exists>s2. SelectUTXOs L ks2 bc w amount = Ok (s2, t1) \<and>
                map Amount_utxo s1 = map Amount_utxo s2 \<and> descending s1 \<and> descending s2)
      | Err e \<Rightarrow> SelectUTXOs L ks2 bc w amount = Err e
      | Panic p \<Rightarrow> False) \<and>
     (distinct (map Amount_utxo (available_utxos ks1 bc w)) \<longrightarrow>
        SelectUTXOs L ks1 bc w amount = SelectUTXOs L ks2 bc w amount)"
proof -
  let ?x1 = "sort_Slice L (available_utxos ks1 bc w)"
  let ?x2 = "sort_Slice L (available_utxos ks2 bc w)"
  have am: "map Amount_utxo ?x1 = map Amount_utxo ?x2"
    using assms by (rule sorted_amounts_agree)
  have d: "descending ?x1" "descending ?x2"
    using assms(1) by (simp_all add: sort_Slice_contract_def)
  note la = select_loop_amounts[OF am, of "[]" "[]" amount 0, simplified]
  obtain s1 t1 where l1: "select_loop amount ?x1 [] 0 = (s1, t1)" by (cases "select_loop amount ?x1 [] 0")
  obtain s2 t2 where l2: "select_loop amount ?x2 [] 0 = (s2, t2)" by (cases "select_loop amount ?x2 [] 0")
  from la l1 l2 have eq: "t1 = t2" "map Amount_utxo s1 = map Amount_utxo s2" by simp_all
  have r1: "SelectUTXOs L ks1 bc w amount =
      (if t1 < amount then Err InsufficientBalance else Ok (s1, t1))"
    and r2: "SelectUTXOs L ks2 bc w amount =
      (if t1 < amount then Err InsufficientBalance else Ok (s2, t1))"
    using l1 l2 eq by (simp_all add: SelectUTXOs_def)
  have p1: "descending s1" if "\<not> t1 < amount"
    using SelectUTXOs_outcome[of L ks1 bc w amount] r1 that d(1) by (auto intro: descending_prefix)
  have p2: "descending s2" if "\<not> t1 < amount"
    using SelectUTXOs_outcome[of L ks2 bc w amount] r2 that d(2) by (auto intro: descending_prefix)
  have first: "case SelectUTXOs L ks1 bc w amount of
        Ok (s1, t1) \<Rightarrow>
          (\<exists>s2. SelectUTXOs L ks2 bc w amount = Ok (s2, t1) \<and>
                map Amount_utxo s1 = map Amount_utxo s2 \<and> descending s1 \<and> descending s2)
      | Err e \<Rightarrow> SelectUTXOs L ks2 bc w amount = Err e
      | Panic p \<Rightarrow> False"
    using r1 r2 eq p1 p2 by (cases "t1 < amount") simp_all
  have second: "SelectUTXOs L ks1 bc w amount = SelectUTXOs L ks2 bc w amount"
    if dist: "distinct (map Amount_utxo (available_utxos ks1 bc w))"
  proof -
    have m1: "mset ?x1 = mset (available_utxos ks1 bc w)"
      and m2: "mset ?x2 = mset (available_utxos ks2 bc w)"
      using assms(1) by (simp_all add: sort_Slice_contract_def)
    have m12: "mset (available_utxos ks1 bc w) = mset (available_utxos ks2 bc w)"
      using assms(2,3) by (rule mset_available)
    have "inj_on Amount_utxo (set (available_utxos ks1 bc w))"
      using dist by (simp add: distinct_map)
    moreover have "set ?x1 = set (available_utxos ks1 bc w)" "set ?x2 = set (available_utxos ks1 bc w)"
      using m1 m2 m12 by (metis mset_eq_setD)+
    ultimately have "inj_on Amount_utxo (set ?x1 \<union> set ?x2)" by simp
    with am have "?x1 = ?x2" by (simp add: inj_on_map_eq_map)
    then show ?thesis by (simp add: SelectUTXOs_def)
  qed
  from first second show ?thesis by blast
qed

theorem SelectUTXOs_repeatable_witness:
  "sort_Slice_contract (sort_Slice example_lib) \<and>
   iteration_order (UTXOs faucet_two_seconds) [''faucet-A-0:0'', ''faucet-A-1:0''] \<and>
   iteration_order (UTXOs faucet_two_seconds) [''faucet-A-1:0'', ''faucet-A-0:0''] \<and>
   (\<exists>s1 s2. SelectUTXOs example_lib [''faucet-A-0:0'', ''faucet-A-1:0''] faucet_two_seconds ''A'' 1000 =
        Ok (s1, 1000) \<and>
      SelectUTXOs example_lib [''faucet-A-1:0'', ''faucet-A-0:0''] faucet_two_seconds ''A'' 1000 =
        Ok (s2, 1000) \<and>
      map Amount_utxo s1 = map Amount_utxo s2)"
proof -
  let ?k01 = "[''faucet-A-0:0'', ''faucet-A-1:0'']"
  let ?k10 = "[''faucet-A-1:0'', ''faucet-A-0:0'']"
  have c: "sort_Slice_contract (sort_Slice example_lib)"
    by (simp add: example_lib_def insertionSort_contract)
  have u: "dom (UTXOs faucet_two_seconds) = {''faucet-A-0:0'', ''faucet-A-1:0''}"
    by (auto simp: faucet_two_seconds_def faucet_once_def CreateFaucetUTXO_def NewBlockchain_def
          fmt_d_0 fmt_d_1 Let_def)
  have i01: "iteration_order (UTXOs faucet_two_seconds) ?k01"
    and i10: "iteration_order (UTXOs faucet_two_seconds) ?k10"
    by (auto simp: iteration_order_def u)
  have s01: "\<exists>s1. SelectUTXOs example_lib ?k01 faucet_two_seconds ''A'' 1000 = Ok (s1, 1000)"
    by (simp add: SelectUTXOs_def available_utxos_def range_values_def example_lib_def
          insertionSort_def faucet_two_seconds_def faucet_once_def CreateFaucetUTXO_def
          NewBlockchain_def fmt_d_0 fmt_d_1 FaucetAmount_def Let_def)
  then obtain s1 where s1: "SelectUTXOs example_lib ?k01 faucet_two_seconds ''A'' 1000 = Ok (s1, 1000)"
    by blast
  from SelectUTXOs_repeatable[OF c i01 i10, of "''A''" 1000] s1
  obtain s2 where "SelectUTXOs example_lib ?k10 faucet_two_seconds ''A'' 1000 = Ok (s2, 1000)"
    "map Amount_utxo s1 = map Amount_utxo s2"
    by auto
  with c i01 i10 s1 show ?thesis by blast
qed

subsection \<open>Claim C6: sealing always returns a committed block\<close>

text \<open>
  C6.  On every reachable ledger state, and on every state with a chain that is not empty,
  \<open>Mine\<close> returns a block: the nonce search tries at most \<open>maxIterations\<close>, ten million,
  nonces, starting at \<open>nonceStart\<close>, and stops at the first one whose hash has the required
  prefix.  The block is
  appended to the chain, the UTXO transitions of its transactions are applied and the
  pending pool is cleared, whether or not the hash found has the prefix; a block whose hash
  lacks the prefix is committed only after the whole budget is spent, with the hash of the
  last nonce tried.

  The UTXO transitions are those of the reward transaction, which has no inputs and one
  output of 50 for the miner, followed by the pending transactions in pool order.  Every
  output of a transaction in the block is stored under the key \<open>id:index\<close>, with that key as
  its id; when no later transaction of the block writes the same key, this is the UTXO found
  there afterwards, marked as spent if a later transaction of the block has it as an input.
  At a key that no output of the block is stored under, a UTXO that some transaction of the
  block has as an input is marked as spent, and nothing else changes.
\<close>

theorem Mine_terminates_and_commits:
  assumes "reachable bc \<or> Chain bc \<noteq> []"
  shows "\<exists>b bc'. Mine now nonceStart miner bc = Ok (b, bc') \<and>
     Chain bc' = Chain bc @ [b] \<and> Pending bc' = [] \<and>
     UTXOs bc' = foldl commit_tx (UTXOs bc) (Transactions b) \<and>
     (\<forall>k. (\<forall>tx\<in>set (Transactions b). \<forall>i<length (Outputs tx). k \<noteq> utxo_key (ID tx) (int i)) \<longrightarrow>
        UTXOs bc' k =
          (if \<exists>tx\<in>set (Transactions b). \<exists>r\<in>set (Inputs tx). k = utxo_key (TxID r) (Index_ref r)
           then map_option (\<lambda>ut. ut\<lparr>Spent := True\<rparr>) (UTXOs bc k) else UTXOs bc k)) \<and>
     (\<forall>pre tx post i.
        Transactions b = pre @ tx # post \<and> i < length (Outputs tx) \<and>
        (\<forall>tx'\<in>set post. \<forall>j<length (Outputs tx').
            utxo_key (ID tx) (int i) \<noteq> utxo_key (ID tx') (int j)) \<longrightarrow>
        UTXOs bc' (utxo_key (ID tx) (int i)) =
          Some ((Outputs tx ! i)
            \<lparr>ID_utxo := utxo_key (ID tx) (int i),
             Spent := Spent (Outputs tx ! i) \<or>
               (\<exists>tx'\<in>set post. \<exists>r\<in>set (Inputs tx').
                   utxo_key (ID tx) (int i) = utxo_key (TxID r) (Index_ref r))\<rparr>)) \<and>
     Transactions b = coinbase (int (length (Chain bc))) now miner # Pending bc \<and>
     Inputs (coinbase (int (length (Chain bc))) now miner) = [] \<and>
     Outputs (coinbase (int (length (Chain bc))) now miner) =
       [\<lparr>ID_utxo = [], Owner = miner, Amount_utxo = 50,
         OriginTx = ID (coinbase (int (length (Chain bc))) now miner), Index_utxo = 0,
         Spent = False\<rparr>] \<and>
     Hash b = hashBlock b \<and> maxIterations = 10000000 \<and>
     (\<exists>i<maxIterations. Nonce b = nonceStart + of_nat i \<and>
        (\<forall>j<i. \<not> prefix (DifficultyPref bc) (hashBlock (b\<lparr>Nonce := nonceStart + of_nat j\<rparr>))) \<and>
        (\<not> prefix (DifficultyPref bc) (Hash b) \<longrightarrow> i = maxIterations - 1))"
proof -
  let ?b = "mined_block now nonceStart miner bc"
  let ?bc' = "bc\<lparr>Chain := Chain bc @ [?b],
                UTXOs := foldl commit_tx (UTXOs bc) (Transactions ?b), Pending := []\<rparr>"
  from assms have "Chain bc \<noteq> []" by (auto dest: reachable_Chain)
  then have ok: "Mine now nonceStart miner bc = Ok (?b, ?bc')" by (rule Mine_Ok)
  have state: "Chain ?bc' = Chain bc @ [?b]" "Pending ?bc' = []"
    "UTXOs ?bc' = foldl commit_tx (UTXOs bc) (Transactions ?b)"
    by simp_all
  have other: "\<forall>k. (\<forall>tx\<in>set (Transactions ?b). \<forall>i<length (Outputs tx).
          k \<noteq> utxo_key (ID tx) (int i)) \<longrightarrow>
        UTXOs ?bc' k =
          (if \<exists>tx\<in>set (Transactions ?b). \<exists>r\<in>set (Inputs tx). k = utxo_key (TxID r) (Index_ref r)
           then map_option (\<lambda>ut. ut\<lparr>Spent := True\<rparr>) (UTXOs bc k) else UTXOs bc k)"
    unfolding state(3) by (intro allI impI foldl_commit_tx_other)
  have outs: "\<forall>pre tx post i.
        Transactions ?b = pre @ tx # post \<and> i < length (Outputs tx) \<and>
        (\<forall>tx'\<in>set post. \<forall>j<length (Outputs tx').
            utxo_key (ID tx) (int i) \<noteq> utxo_key (ID tx') (int j)) \<longrightarrow>
        UTXOs ?bc' (utxo_key (ID tx) (int i)) =
          Some ((Outputs tx ! i)
            \<lparr>ID_utxo := utxo_key (ID tx) (int i),
             Spent := Spent (Outputs tx ! i) \<or>
               (\<exists>tx'\<in>set post. \<exists>r\<in>set (Inputs tx').
                   utxo_key (ID tx) (int i) = utxo_key (TxID r) (Index_ref r))\<rparr>)"
    unfolding state(3) by (intro allI impI foldl_commit_tx_output) blast+
  have txs: "Transactions ?b = coinbase (int (length (Chain bc))) now miner # Pending bc"
    by (simp add: mined_block_frame)
  have cb: "Inputs (coinbase (int (length (Chain bc))) now miner) = []"
    "Outputs (coinbase (int (length (Chain bc))) now miner) =
       [\<lparr>ID_utxo = [], Owner = miner, Amount_utxo = 50,
         OriginTx = ID (coinbase (int (length (Chain bc))) now miner), Index_utxo = 0,
         Spent = False\<rparr>]"
    by (simp_all add: coinbase_def MiningReward_def)
  from mined_block_search[of now nonceStart miner bc]
  have search: "Hash ?b = hashBlock ?b \<and>
     (\<exists>i<maxIterations. Nonce ?b = nonceStart + of_nat i \<and>
        (\<forall>j<i. \<not> prefix (DifficultyPref bc) (hashBlock (?b\<lparr>Nonce := nonceStart + of_nat j\<rparr>))) \<and>
        (\<not> prefix (DifficultyPref bc) (Hash ?b) \<longrightarrow> i = maxIterations - 1))"
    by blast
  then have hash: "Hash ?b = hashBlock ?b"
    and nonce: "\<exists>i<maxIterations. Nonce ?b = nonceStart + of_nat i \<and>
        (\<forall>j<i. \<not> prefix (DifficultyPref bc) (hashBlock (?b\<lparr>Nonce := nonceStart + of_nat j\<rparr>))) \<and>
        (\<not> prefix (DifficultyPref bc) (Hash ?b) \<longrightarrow> i = maxIterations - 1)"
    by blast+
  have budget: "maxIterations = 10000000"
    by (simp add: maxIterations_def)
  show ?thesis
    by (rule exI[of _ ?b], rule exI[of _ ?bc'])
       (intro ok state other outs txs cb hash budget nonce conjI)
qed

text \<open>A transfer of 600 from \<open>A\<close> to \<open>B\<close> is pending on the ledger \<open>faucet_once\<close>.\<close>

theorem Mine_terminates_and_commits_witness:
  "reachable (AddPending (spend_of_A ''tx-1'' ''B'') faucet_once) \<and>
   (\<exists>b bc'. Mine 0 0 ''M'' (AddPending (spend_of_A ''tx-1'' ''B'') faucet_once) = Ok (b, bc') \<and>
      Chain bc' = [genesis 0, b] \<and> Pending bc' = [] \<and> Hash b = hashBlock b \<and>
      Transactions b = [coinbase 1 0 ''M'', spend_of_A ''tx-1'' ''B''] \<and>
      UTXOs bc' ''faucet-A-0:0'' =
        Some \<lparr>ID_utxo = ''faucet-A-0:0'', Owner = ''A'', Amount_utxo = 1000,
              OriginTx = ''faucet-A-0'', Index_utxo = 0, Spent = True\<rparr> \<and>
      UTXOs bc' ''coinbase-1-0:0'' =
        Some \<lparr>ID_utxo = ''coinbase-1-0:0'', Owner = ''M'', Amount_utxo = 50,
              OriginTx = ''coinbase-1-0'', Index_utxo = 0, Spent = False\<rparr> \<and>
      UTXOs bc' ''tx-1:0'' =
        Some \<lparr>ID_utxo = ''tx-1:0'', Owner = ''B'', Amount_utxo = 600,
              OriginTx = ''tx-1'', Index_utxo = 0, Spent = False\<rparr> \<and>
      UTXOs bc' ''tx-1:1'' =
        Some \<lparr>ID_utxo = ''tx-1:1'', Owner = ''A'', Amount_utxo = 400,
              OriginTx = ''tx-1'', Index_utxo = 1, Spent = False\<rparr>)"
proof -
  let ?bc = "AddPending (spend_of_A ''tx-1'' ''B'') faucet_once"
  let ?cb = "coinbase 1 0 ''M''"
  let ?tx = "spend_of_A ''tx-1'' ''B''"
  have "reachable faucet_once"
    unfolding faucet_once_def by (rule reach_faucet) (rule reach_new)
  then have r: "reachable ?bc" by (rule reach_pending)
  have c: "Chain ?bc = [genesis 0]" and p: "Pending ?bc = [?tx]"
    and u: "UTXOs ?bc = UTXOs faucet_once"
    by (simp_all add: AddPending_def faucet_once_Chain faucet_once_def CreateFaucetUTXO_def
          NewBlockchain_def Let_def)
  from Mine_terminates_and_commits[OF disjI1, OF r, of 0 0 "''M''"]
  obtain b bc' where ok: "Mine 0 0 ''M'' ?bc = Ok (b, bc')"
    and st: "Chain bc' = Chain ?bc @ [b]" "Pending bc' = []" "Hash b = hashBlock b"
    and txs: "Transactions b = coinbase (int (length (Chain ?bc))) 0 ''M'' # Pending ?bc"
    and other: "\<And>k. (\<forall>tx\<in>set (Transactions b). \<forall>i<length (Outputs tx).
          k \<noteq> utxo_key (ID tx) (int i)) \<Longrightarrow>
        UTXOs bc' k =
          (if \<exists>tx\<in>set (Transactions b). \<exists>r\<in>set (Inputs tx). k = utxo_key (TxID r) (Index_ref r)
           then map_option (\<lambda>ut. ut\<lparr>Spent := True\<rparr>) (UTXOs ?bc k) else UTXOs ?bc k)"
    and outs: "\<And>pre tx post i.
        Transactions b = pre @ tx # post \<Longrightarrow> i < length (Outputs tx) \<Longrightarrow>
        (\<forall>tx'\<in>set post. \<forall>j<length (Outputs tx').
            utxo_key (ID tx) (int i) \<noteq> utxo_key (ID tx') (int j)) \<Longrightarrow>
        UTXOs bc' (utxo_key (ID tx) (int i)) =
          Some ((Outputs tx ! i)
            \<lparr>ID_utxo := utxo_key (ID tx) (int i),
             Spent := Spent (Outputs tx ! i) \<or>
               (\<exists>tx'\<in>set post. \<exists>r\<in>set (Inputs tx').
                   utxo_key (ID tx) (int i) = utxo_key (TxID r) (Index_ref r))\<rparr>)"
    by blast
  have t: "Transactions b = [?cb, ?tx]"
    using txs by (simp add: c p)
  have ids: "ID ?cb = ''coinbase-1-0''" "ID ?tx = ''tx-1''"
    and io: "Inputs ?cb = []" "Inputs ?tx = [\<lparr>TxID = ''faucet-A-0'', Index_ref = 0\<rparr>]"
      "Outputs ?cb = [\<lparr>ID_utxo = [], Owner = ''M'', Amount_utxo = 50, OriginTx = ''coinbase-1-0'',
         Index_utxo = 0, Spent = False\<rparr>]"
      "Outputs ?tx = [\<lparr>ID_utxo = [], Owner = ''B'', Amount_utxo = 600, OriginTx = ''tx-1'',
         Index_utxo = 0, Spent = False\<rparr>,
        \<lparr>ID_utxo = [], Owner = ''A'', Amount_utxo = 400, OriginTx = ''tx-1'',
         Index_utxo = 1, Spent = False\<rparr>]"
    by (simp_all add: coinbase_def spend_of_A_def new_output_def fmt_d_0 fmt_d_1 MiningReward_def)
  have k: "utxo_key x 0 = x @ '':0''" "utxo_key x 1 = x @ '':1''" for x
    by (simp_all add: utxo_key_def fmt_d_0 fmt_d_1)
  have two: "(\<forall>i<Suc (Suc 0). P i) \<longleftrightarrow> P 0 \<and> P (Suc 0)" for P :: "nat \<Rightarrow> bool"
    by (auto simp: less_Suc_eq)
  have faucet: "UTXOs bc' ''faucet-A-0:0'' =
        Some \<lparr>ID_utxo = ''faucet-A-0:0'', Owner = ''A'', Amount_utxo = 1000,
              OriginTx = ''faucet-A-0'', Index_utxo = 0, Spent = True\<rparr>"
    by (subst other) (simp_all add: t ids io k two u faucet_once_UTXOs)
  have reward: "UTXOs bc' (utxo_key (ID ?cb) (int 0)) =
          Some ((Outputs ?cb ! 0)
            \<lparr>ID_utxo := utxo_key (ID ?cb) (int 0),
             Spent := Spent (Outputs ?cb ! 0) \<or>
               (\<exists>tx'\<in>set [?tx]. \<exists>r\<in>set (Inputs tx').
                   utxo_key (ID ?cb) (int 0) = utxo_key (TxID r) (Index_ref r))\<rparr>)"
    by (rule outs[of "[]"]) (simp_all add: t ids io k two)
  have pay: "UTXOs bc' (utxo_key (ID ?tx) (int 0)) =
          Some ((Outputs ?tx ! 0)
            \<lparr>ID_utxo := utxo_key (ID ?tx) (int 0),
             Spent := Spent (Outputs ?tx ! 0) \<or>
               (\<exists>tx'\<in>set ([] :: Transaction list). \<exists>r\<in>set (Inputs tx').
                   utxo_key (ID ?tx) (int 0) = utxo_key (TxID r) (Index_ref r))\<rparr>)"
    by (rule outs[of "[?cb]"]) (simp_all add: t io)
  have change: "UTXOs bc' (utxo_key (ID ?tx) (int 1)) =
          Some ((Outputs ?tx ! 1)
            \<lparr>ID_utxo := utxo_key (ID ?tx) (int 1),
             Spent := Spent (Outputs ?tx ! 1) \<or>
               (\<exists>tx'\<in>set ([] :: Transaction list). \<exists>r\<in>set (Inputs tx').
                   utxo_key (ID ?tx) (int 1) = utxo_key (TxID r) (Index_ref r))\<rparr>)"
    by (rule outs[of "[?cb]"]) (simp_all add: t io)
  from reward have reward': "UTXOs bc' ''coinbase-1-0:0'' =
        Some \<lparr>ID_utxo = ''coinbase-1-0:0'', Owner = ''M'', Amount_utxo = 50,
              OriginTx = ''coinbase-1-0'', Index_utxo = 0, Spent = False\<rparr>"
    by (simp add: ids io k)
  from pay have pay': "UTXOs bc' ''tx-1:0'' =
        Some \<lparr>ID_utxo = ''tx-1:0'', Owner = ''B'', Amount_utxo = 600,
              OriginTx = ''tx-1'', Index_utxo = 0, Spent = False\<rparr>"
    by (simp add: ids io k)
  from change have change': "UTXOs bc' ''tx-1:1'' =
        Some \<lparr>ID_utxo = ''tx-1:1'', Owner = ''A'', Amount_utxo = 400,
              OriginTx = ''tx-1'', Index_utxo = 1, Spent = False\<rparr>"
    by (simp add: ids io k)
  have "Chain bc' = [genesis 0, b]"
    using st(1) by (simp add: c)
  with r ok st(2,3) t faucet reward' pay' change' show ?thesis by blast
qed

subsection \<open>Claim C7: sealing with an empty pending pool\<close>

text \<open>
  C7.  On a reachable ledger state with an empty pending pool, \<open>Mine\<close> returns a block with
  exactly one transaction, the reward: it has no inputs, the amount \<open>MiningReward = 50\<close> and one
  output, of 50, owned by the miner.  The Merkle root of the block is the root
  \<open>computeMerkle\<close> gives for that one transaction, the hash of its id, and the pending pool
  is empty afterwards.
\<close>

theorem Mine_empty_pool:
  assumes "reachable bc" and "Pending bc = []"
  shows "\<exists>b bc' cb out. Mine now nonceStart miner bc = Ok (b, bc') \<and>
     Transactions b = [cb] \<and> Type cb = ''mining_reward'' \<and> Inputs cb = [] \<and>
     Amount cb = 50 \<and> Outputs cb = [out] \<and> Owner out = miner \<and> Amount_utxo out = 50 \<and>
     MerkleRoot b = computeMerkle (Transactions b) \<and> MerkleRoot b = sha256_hex (ID cb) \<and>
     Pending bc' = []"
proof -
  let ?b = "mined_block now nonceStart miner bc"
  let ?cb = "coinbase (int (length (Chain bc))) now miner"
  let ?bc' = "bc\<lparr>Chain := Chain bc @ [?b],
                UTXOs := foldl commit_tx (UTXOs bc) (Transactions ?b), Pending := []\<rparr>"
  from assms have "Chain bc \<noteq> []" by (simp add: reachable_Chain)
  then have ok: "Mine now nonceStart miner bc = Ok (?b, ?bc')" by (rule Mine_Ok)
  have txs: "Transactions ?b = [?cb]"
    using assms(2) by (simp add: mined_block_frame)
  have root: "MerkleRoot ?b = computeMerkle (Transactions ?b)"
    by (simp add: mined_block_frame)
  have root1: "MerkleRoot ?b = sha256_hex (ID ?cb)"
    using txs root by (simp add: computeMerkle_single)
  obtain out where out: "Outputs ?cb = [out]" "Owner out = miner" "Amount_utxo out = 50"
    by (simp add: coinbase_def MiningReward_def)
  have cb: "Type ?cb = ''mining_reward''" "Inputs ?cb = []" "Amount ?cb = 50"
    by (simp_all add: coinbase_def MiningReward_def)
  have "Pending ?bc' = []" by simp
  with ok txs root root1 out cb show ?thesis by blast
qed

theorem Mine_empty_pool_witness:
  "reachable (NewBlockchain 0) \<and> Pending (NewBlockchain 0) = [] \<and>
   (\<exists>b bc' cb. Mine 1 0 ''M'' (NewBlockchain 0) = Ok (b, bc') \<and> Transactions b = [cb] \<and>
      Inputs cb = [] \<and> Amount cb = 50 \<and> Pending bc' = [])"
proof -
  have p: "Pending (NewBlockchain 0) = []" by (simp add: NewBlockchain_def)
  from Mine_empty_pool[OF reach_new p, of 1 0 "''M''"] p reach_new[of 0]
  show ?thesis by blast
qed

subsection \<open>Claim C8: the levied amount and the levy transaction\<close>

text \<open>
  C8, as stated, fails in two places.  The levied amount is computed in binary64 floating
  point, \<open>uint64(float64(balance) * 0.025)\<close>: for the balance 8018511061278159 the code levies
  200462776531954, one more than the floor 200462776531953 of 2.5% of the balance.  And the
  amount that goes back to the wallet is the rest of the selected inputs, not of the balance:
  a wallet with a balance of 1000 in two outputs of 500 gets 475 back, and keeps its other output.
\<close>

theorem levy_float_counterexample:
  "zakatAmount 8018511061278159 = 200462776531954 \<and>
   uint (8018511061278159 :: u64) div 40 = 200462776531953 \<and>
   GetBalance [''t0:0'', ''t1:0''] (ledger_with [500, 500]) wallet_W = 1000 \<and>
   process_wallet example_lib 0 (ledger_with [500, 500], NewZakatService)
       (visit_W [''t0:0'', ''t1:0'']) =
     Ok (AddPending levy_500_500 (ledger_with [500, 500]),
         NewZakatService\<lparr>lastProcessed := [wallet_W \<mapsto> 0]\<rparr>) \<and>
   Outputs levy_500_500 =
     [\<lparr>ID_utxo = [], Owner = ''ZAKAT_POOL'', Amount_utxo = 25, OriginTx = ''zakat-7'',
       Index_utxo = 0, Spent = False\<rparr>,
      \<lparr>ID_utxo = [], Owner = wallet_W, Amount_utxo = 475, OriginTx = ''zakat-7'',
       Index_utxo = 1, Spent = False\<rparr>]"
proof -
  let ?ks = "[''t0:0'', ''t1:0'']"
  let ?v = "visit_W ?ks"
  let ?bc = "ledger_with [500, 500]"
  have w: "WalletID (wallet ?v) = wallet_W" "range_balance ?v = ?ks"
    "obs ?v = \<lparr>range_UTXOs = ?ks, UnixNano = 7, Unix = 0\<rparr>"
    by (simp_all add: visit_W_def wallet_named_def)
  have bal: "GetBalance ?ks ?bc wallet_W = 1000"
    by (simp add: GetBalance_def range_values_def ledger_with_500_500)
  have sel: "SelectUTXOs example_lib ?ks ?bc wallet_W 25 =
      Ok ([\<lparr>ID_utxo = ''t0:0'', Owner = wallet_W, Amount_utxo = 500, OriginTx = ''t0'',
                  Index_utxo = 0, Spent = False\<rparr>], 500)"
    by (simp add: SelectUTXOs_def available_utxos_def range_values_def ledger_with_500_500
          example_lib_def insertionSort_def)
  have c: "CreateZakatTransaction example_lib \<lparr>range_UTXOs = ?ks, UnixNano = 7, Unix = 0\<rparr> ?bc
             wallet_W 25 = Ok levy_500_500"
    by (simp add: CreateZakatTransaction_cases sel levy_500_500_def fmt_d_7 utxo_ref_def
          build_outputs_def new_output_def)
  have ns: "\<not> skipped example_lib 0 NewZakatService (WalletID (wallet ?v))"
    by (simp add: skipped_def w wallet_W_not_system NewZakatService_def)
  have run: "process_wallet example_lib 0 (?bc, NewZakatService) ?v =
     Ok (AddPending levy_500_500 ?bc, NewZakatService\<lparr>lastProcessed := [wallet_W \<mapsto> 0]\<rparr>)"
    unfolding process_wallet_visited[OF ns] w bal zakatAmount_1000 c
    by (simp add: log_id16_def wallet_W_length NewZakatService_def ZakatNisab_def)
  have "uint (8018511061278159 :: u64) div 40 = 200462776531953"
    by simp
  with zakatAmount_big bal run show ?thesis
    by (simp add: levy_500_500_def)
qed

text \<open>
  C8, amended.  For a wallet that the tick does not skip (no system wallet, interval over,
  balance at or above the threshold, an id of at least 16 bytes), with a sort that meets the
  contract and any order of the \<open>range\<close> loops: the levied amount is
  \<open>uint64(float64(balance) * 0.025)\<close>, equal to the floor of \<open>balance * 2.5%\<close>, that is
  \<open>balance div 40\<close>, for every balance below \<open>2^52\<close>; the wallet is passed over when it is zero.
  Otherwise the levy transaction that is appended to the pending pool (when coin selection
  succeeds) pays the levied amount to \<open>ZAKAT_POOL\<close> and the rest of the selected inputs, if any,
  back to the wallet, and the time of the last levy is set to now; that change and the outputs
  that were not selected add up to \<open>balance - levied\<close>.  With a balance of 1000 the levied amount is
  25 and 975 stay with the wallet.
\<close>

theorem levy_of_eligible_wallet:
  assumes wid: "wid = WalletID (wallet v)"
    and balance: "balance = GetBalance (range_balance v) bc wid"
    and levied: "levied = zakatAmount balance"
    and not_system: "wid \<noteq> ''ZAKAT_POOL''" "wid \<noteq> ''COINBASE''"
    and interval: "\<forall>t. lastProcessed zs wid = Some t \<longrightarrow> \<not> interval_running L now t"
    and threshold: "nisabThreshold zs \<le> balance"
    and id16: "16 \<le> length wid"
    and contract: "sort_Slice_contract (sort_Slice L)"
    and orders: "iteration_order (UTXOs bc) (range_balance v)"
      "iteration_order (UTXOs bc) (range_UTXOs (obs v))"
  shows
    "(uint balance < 2 ^ 52 \<longrightarrow> uint levied = uint balance div 40) \<and>
     (levied = 0 \<longrightarrow> process_wallet L now (bc, zs) v = Ok (bc, zs)) \<and>
     (levied \<noteq> 0 \<longrightarrow>
        (case SelectUTXOs L (range_UTXOs (obs v)) bc wid levied of
           Ok (selected, tot) \<Rightarrow>
             (\<exists>tx rest.
                process_wallet L now (bc, zs) v =
                  Ok (AddPending tx bc, zs\<lparr>lastProcessed := (lastProcessed zs)(wid \<mapsto> now)\<rparr>) \<and>
                Type tx = ''zakat_deduction'' \<and> SenderID tx = wid \<and>
                ReceiverID tx = ''ZAKAT_POOL'' \<and> Amount tx = levied \<and>
                Inputs tx =
                  map (\<lambda>utxo. \<lparr>TxID = OriginTx utxo, Index_ref = Index_utxo utxo\<rparr>) selected \<and>
                Outputs tx =
                  \<lparr>ID_utxo = [], Owner = ''ZAKAT_POOL'', Amount_utxo = levied, OriginTx = ID tx,
                   Index_utxo = 0, Spent = False\<rparr> #
                  (if levied < tot
                   then [\<lparr>ID_utxo = [], Owner = wid, Amount_utxo = tot - levied, OriginTx = ID tx,
                          Index_utxo = 1, Spent = False\<rparr>]
                   else []) \<and>
                levied \<le> tot \<and> tot = sum_list (map Amount_utxo selected) \<and>
                (sum_list (map (unat \<circ> Amount_utxo)
                     (available_utxos (range_UTXOs (obs v)) bc wid)) < 2 ^ 64 \<longrightarrow>
                   unat (tot - levied) =
                     sum_list (map (unat \<circ> Amount_utxo) selected) - unat levied) \<and>
                sort_Slice L (available_utxos (range_UTXOs (obs v)) bc wid) = selected @ rest \<and>
                (tot - levied) + sum_list (map Amount_utxo rest) = balance - levied)
         | Err e \<Rightarrow> process_wallet L now (bc, zs) v = Ok (bc, zs)
         | Panic p \<Rightarrow> False)) \<and>
     (balance = 1000 \<longrightarrow> levied = 25 \<and> balance - levied = 975)"
proof -
  have ns: "\<not> skipped L now zs (WalletID (wallet v))"
    using not_system interval by (auto simp: skipped_def wid)
  note pw = process_wallet_visited[OF ns, of bc, folded wid, folded balance, folded levied]
  have nb: "\<not> balance < nisabThreshold zs"
    using threshold by simp
  have exact: "uint balance < 2 ^ 52 \<longrightarrow> uint levied = uint balance div 40"
    by (simp add: levied zakatAmount_exact)
  have zero: "levied = 0 \<longrightarrow> process_wallet L now (bc, zs) v = Ok (bc, zs)"
    using pw nb by simp
  have scen: "balance = 1000 \<longrightarrow> levied = 25 \<and> balance - levied = 975"
    by (simp add: levied zakatAmount_1000)
  have nonzero: "case SelectUTXOs L (range_UTXOs (obs v)) bc wid levied of
           Ok (selected, tot) \<Rightarrow>
             (\<exists>tx rest.
                process_wallet L now (bc, zs) v =
                  Ok (AddPending tx bc, zs\<lparr>lastProcessed := (lastProcessed zs)(wid \<mapsto> now)\<rparr>) \<and>
                Type tx = ''zakat_deduction'' \<and> SenderID tx = wid \<and>
                ReceiverID tx = ''ZAKAT_POOL'' \<and> Amount tx = levied \<and>
                Inputs tx =
                  map (\<lambda>utxo. \<lparr>TxID = OriginTx utxo, Index_ref = Index_utxo utxo\<rparr>) selected \<and>
                Outputs tx =
                  \<lparr>ID_utxo = [], Owner = ''ZAKAT_POOL'', Amount_utxo = levied, OriginTx = ID tx,
                   Index_utxo = 0, Spent = False\<rparr> #
                  (if levied < tot
                   then [\<lparr>ID_utxo = [], Owner = wid, Amount_utxo = tot - levied, OriginTx = ID tx,
                          Index_utxo = 1, Spent = False\<rparr>]
                   else []) \<and>
                levied \<le> tot \<and> tot = sum_list (map Amount_utxo selected) \<and>
                (sum_list (map (unat \<circ> Amount_utxo)
                     (available_utxos (range_UTXOs (obs v)) bc wid)) < 2 ^ 64 \<longrightarrow>
                   unat (tot - levied) =
                     sum_list (map (unat \<circ> Amount_utxo) selected) - unat levied) \<and>
                sort_Slice L (available_utxos (range_UTXOs (obs v)) bc wid) = selected @ rest \<and>
                (tot - levied) + sum_list (map Amount_utxo rest) = balance - levied)
         | Err e \<Rightarrow> process_wallet L now (bc, zs) v = Ok (bc, zs)
         | Panic p \<Rightarrow> False"
    if nz: "levied \<noteq> 0"
  proof (cases "SelectUTXOs L (range_UTXOs (obs v)) bc wid levied")
    case (Err e)
    then have "CreateZakatTransaction L (obs v) bc wid levied = Err e"
      by (simp add: CreateZakatTransaction_cases)
    with pw nb nz id16 Err show ?thesis by (simp add: log_id16_def)
  next
    case (Panic p)
    with SelectUTXOs_no_panic show ?thesis by blast
  next
    case (Ok r)
    obtain selected tot where r: "r = (selected, tot)" by (cases r)
    let ?xs = "sort_Slice L (available_utxos (range_UTXOs (obs v)) bc wid)"
    let ?id = "''zakat-'' @ fmt_d (UnixNano (obs v))"
    let ?tx = "\<lparr>ID = ?id, SenderID = wid, ReceiverID = ''ZAKAT_POOL'',
              Amount = levied, Note = ''Monthly Zakat Deduction (2.5%)'',
              Timestamp = Unix (obs v), PubKey = ''system'', Signature = ''system'',
              Inputs = map utxo_ref selected,
              Outputs = build_outputs ''ZAKAT_POOL'' wid levied tot ?id,
              Type = ''zakat_deduction''\<rparr>"
    from SelectUTXOs_outcome[of L "range_UTXOs (obs v)" bc wid levied] Ok r
    have pre: "prefix selected ?xs" and tot: "tot = sum_list (map Amount_utxo selected)"
      and le: "levied \<le> tot"
      by auto
    from pre obtain rest where rest: "?xs = selected @ rest" by (auto simp: prefix_def)
    have c: "CreateZakatTransaction L (obs v) bc wid levied = Ok ?tx"
      by (simp add: CreateZakatTransaction_cases Ok r)
    have run: "process_wallet L now (bc, zs) v =
        Ok (AddPending ?tx bc, zs\<lparr>lastProcessed := (lastProcessed zs)(wid \<mapsto> now)\<rparr>)"
      using pw nb nz id16 c by (simp add: log_id16_def)
    have outs: "Outputs ?tx =
                  \<lparr>ID_utxo = [], Owner = ''ZAKAT_POOL'', Amount_utxo = levied, OriginTx = ID ?tx,
                   Index_utxo = 0, Spent = False\<rparr> #
                  (if levied < tot
                   then [\<lparr>ID_utxo = [], Owner = wid, Amount_utxo = tot - levied, OriginTx = ID ?tx,
                          Index_utxo = 1, Spent = False\<rparr>]
                   else [])"
      using build_outputs_eq[OF le] by (simp add: new_output_def)
    have ins: "Inputs ?tx =
        map (\<lambda>utxo. \<lparr>TxID = OriginTx utxo, Index_ref = Index_utxo utxo\<rparr>) selected"
      by (simp add: utxo_ref_def[abs_def])
    have "mset ?xs = mset (available_utxos (range_balance v) bc wid)"
      using contract mset_available[OF orders(2,1), of wid] by (simp add: sort_Slice_contract_def)
    then have "balance = sum_list (map Amount_utxo ?xs)"
      unfolding balance GetBalance_available by (rule sum_list_mset_cong_u64[symmetric])
    then have "balance = tot + sum_list (map Amount_utxo rest)"
      by (simp add: rest tot)
    then have rem: "(tot - levied) + sum_list (map Amount_utxo rest) = balance - levied"
      by simp
    have exact_rest: "unat (tot - levied) =
        sum_list (map (unat \<circ> Amount_utxo) selected) - unat levied"
      if "sum_list (map (unat \<circ> Amount_utxo)
            (available_utxos (range_UTXOs (obs v)) bc wid)) < 2 ^ 64"
    proof -
      from SelectUTXOs_exact[OF contract that, of levied] Ok r
      have "unat tot = sum_list (map (unat \<circ> Amount_utxo) selected)"
        by simp
      with unat_sub[OF le] show ?thesis by simp
    qed
    have "\<exists>tx rest.
                process_wallet L now (bc, zs) v =
                  Ok (AddPending tx bc, zs\<lparr>lastProcessed := (lastProcessed zs)(wid \<mapsto> now)\<rparr>) \<and>
                Type tx = ''zakat_deduction'' \<and> SenderID tx = wid \<and>
                ReceiverID tx = ''ZAKAT_POOL'' \<and> Amount tx = levied \<and>
                Inputs tx =
                  map (\<lambda>utxo. \<lparr>TxID = OriginTx utxo, Index_ref = Index_utxo utxo\<rparr>) selected \<and>
                Outputs tx =
                  \<lparr>ID_utxo = [], Owner = ''ZAKAT_POOL'', Amount_utxo = levied, OriginTx = ID tx,
                   Index_utxo = 0, Spent = False\<rparr> #
                  (if levied < tot
                   then [\<lparr>ID_utxo = [], Owner = wid, Amount_utxo = tot - levied, OriginTx = ID tx,
                          Index_utxo = 1, Spent = False\<rparr>]
                   else []) \<and>
                levied \<le> tot \<and> tot = sum_list (map Amount_utxo selected) \<and>
                (sum_list (map (unat \<circ> Amount_utxo)
                     (available_utxos (range_UTXOs (obs v)) bc wid)) < 2 ^ 64 \<longrightarrow>
                   unat (tot - levied) =
                     sum_list (map (unat \<circ> Amount_utxo) selected) - unat levied) \<and>
                sort_Slice L (available_utxos (range_UTXOs (obs v)) bc wid) = selected @ rest \<and>
                (tot - levied) + sum_list (map Amount_utxo rest) = balance - levied"
      using run outs ins rest rem le tot exact_rest
      by (intro exI[of _ ?tx] exI[of _ rest]) simp
    then show ?thesis by (simp add: Ok r)
  qed
  from exact zero nonzero scen show ?thesis by blast
qed


theorem levy_of_eligible_wallet_witness:
  "wallet_W \<noteq> ''ZAKAT_POOL'' \<and> wallet_W \<noteq> ''COINBASE'' \<and>
   lastProcessed NewZakatService wallet_W = None \<and>
   nisabThreshold NewZakatService \<le> GetBalance [''t0:0''] (ledger_with [1000]) wallet_W \<and>
   16 \<le> length wallet_W \<and>
   sort_Slice_contract (sort_Slice example_lib) \<and>
   iteration_order (UTXOs (ledger_with [1000])) [''t0:0''] \<and>
   GetBalance [''t0:0''] (ledger_with [1000]) wallet_W = 1000 \<and>
   zakatAmount 1000 = 25 \<and>
   (\<exists>tx. process_wallet example_lib 0 (ledger_with [1000], NewZakatService) (visit_W [''t0:0'']) =
           Ok (AddPending tx (ledger_with [1000]),
               NewZakatService\<lparr>lastProcessed := [wallet_W \<mapsto> 0]\<rparr>) \<and>
         Outputs tx =
           [\<lparr>ID_utxo = [], Owner = ''ZAKAT_POOL'', Amount_utxo = 25, OriginTx = ID tx,
             Index_utxo = 0, Spent = False\<rparr>,
            \<lparr>ID_utxo = [], Owner = wallet_W, Amount_utxo = 975, OriginTx = ID tx,
             Index_utxo = 1, Spent = False\<rparr>])"
proof -
  let ?ks = "[''t0:0'']"
  let ?v = "visit_W ?ks"
  let ?bc = "ledger_with [1000]"
  have w: "wallet_W = WalletID (wallet ?v)"
    and rb: "range_balance ?v = ?ks" and ro: "range_UTXOs (obs ?v) = ?ks"
    by (simp_all add: visit_W_def wallet_named_def)
  have bal: "GetBalance ?ks ?bc wallet_W = 1000"
    by (simp add: GetBalance_def range_values_def ledger_with_1000)
  have bal': "1000 = GetBalance (range_balance ?v) ?bc wallet_W"
    by (simp add: bal rb)
  have lev: "25 = zakatAmount 1000"
    by (simp add: zakatAmount_1000)
  have last: "lastProcessed NewZakatService wallet_W = None"
    by (simp add: NewZakatService_def)
  then have interval: "\<forall>t. lastProcessed NewZakatService wallet_W = Some t \<longrightarrow>
       \<not> interval_running example_lib 0 t"
    by simp
  have thr: "nisabThreshold NewZakatService \<le> 1000"
    by (simp add: NewZakatService_def ZakatNisab_def)
  have id16: "16 \<le> length wallet_W"
    by (simp add: wallet_W_length)
  have c: "sort_Slice_contract (sort_Slice example_lib)"
    by (simp add: example_lib_def insertionSort_contract)
  have i: "iteration_order (UTXOs ?bc) ?ks"
    by (simp add: iteration_order_def ledger_with_1000)
  have sel: "SelectUTXOs example_lib ?ks ?bc wallet_W 25 =
      Ok ([\<lparr>ID_utxo = ''t0:0'', Owner = wallet_W, Amount_utxo = 1000, OriginTx = ''t0'',
                  Index_utxo = 0, Spent = False\<rparr>], 1000)"
    by (simp add: SelectUTXOs_def available_utxos_def range_values_def ledger_with_1000
          example_lib_def insertionSort_def)
  have ib: "iteration_order (UTXOs ?bc) (range_balance ?v)"
    and io: "iteration_order (UTXOs ?bc) (range_UTXOs (obs ?v))"
    using i by (simp_all add: rb ro)
  note levy = levy_of_eligible_wallet[OF w bal' lev wallet_W_not_system interval thr id16 c
      ib io]
  have nz: "(25 :: u64) \<noteq> 0" by simp
  note third = levy[THEN conjunct2, THEN conjunct2, THEN conjunct1, rule_format, OF nz,
      unfolded ro sel outcome.case prod.case]
  then obtain tx where
    run: "process_wallet example_lib 0 (?bc, NewZakatService) ?v =
        Ok (AddPending tx ?bc,
            NewZakatService\<lparr>lastProcessed := (lastProcessed NewZakatService)(wallet_W \<mapsto> 0)\<rparr>)"
    and outs: "Outputs tx =
         \<lparr>ID_utxo = [], Owner = ''ZAKAT_POOL'', Amount_utxo = 25, OriginTx = ID tx,
          Index_utxo = 0, Spent = False\<rparr> #
         (if (25 :: u64) < 1000
          then [\<lparr>ID_utxo = [], Owner = wallet_W, Amount_utxo = 1000 - 25, OriginTx = ID tx,
                 Index_utxo = 1, Spent = False\<rparr>]
          else [])"
    by blast
  from outs have
    "Outputs tx =
       [\<lparr>ID_utxo = [], Owner = ''ZAKAT_POOL'', Amount_utxo = 25, OriginTx = ID tx,
         Index_utxo = 0, Spent = False\<rparr>,
        \<lparr>ID_utxo = [], Owner = wallet_W, Amount_utxo = 975, OriginTx = ID tx,
         Index_utxo = 1, Spent = False\<rparr>]"
    by simp
  note run this
  moreover have "(lastProcessed NewZakatService)(wallet_W \<mapsto> 0) = [wallet_W \<mapsto> 0]"
    by (simp add: NewZakatService_def)
  ultimately have "\<exists>tx. process_wallet example_lib 0 (?bc, NewZakatService) ?v =
           Ok (AddPending tx ?bc, NewZakatService\<lparr>lastProcessed := [wallet_W \<mapsto> 0]\<rparr>) \<and>
         Outputs tx =
           [\<lparr>ID_utxo = [], Owner = ''ZAKAT_POOL'', Amount_utxo = 25, OriginTx = ID tx,
             Index_utxo = 0, Spent = False\<rparr>,
            \<lparr>ID_utxo = [], Owner = wallet_W, Amount_utxo = 975, OriginTx = ID tx,
             Index_utxo = 1, Spent = False\<rparr>]"
    by auto
  with wallet_W_not_system last thr bal id16 c i zakatAmount_1000 show ?thesis
    by simp
qed

subsection \<open>Claim C9: a balance below the threshold\<close>

text \<open>
  C9.  When the balance that a levy tick reads for wallet \<open>w\<close> is below the threshold of the
  service, the tick makes no levy for \<open>w\<close> and leaves the time of its last levy as it was:
  after \<open>ProcessMonthlyZakat\<close> the entry of \<open>w\<close> in \<open>lastProcessed\<close> is unchanged, and the levies of
  \<open>w\<close> among the transactions of the ledger (in blocks or pending) are those that were there
  before.  The tick never returns an error; it panics only on an empty chain or when it logs
  a wallet id shorter than 16 bytes.  With a balance of 400 and the threshold 500 the tick
  leaves ledger and service as they are.
\<close>

theorem levy_skips_below_threshold:
  assumes "\<forall>v\<in>set visits. WalletID (wallet v) = w \<longrightarrow>
             GetBalance (range_balance v) bc w < nisabThreshold zs"
  shows "case ProcessMonthlyZakat L now mineTime visits (bc, zs) of
           Ok (bc', zs') \<Rightarrow>
             lastProcessed zs' w = lastProcessed zs w \<and>
             filter (\<lambda>tx. SenderID tx = w \<and> Type tx = ''zakat_deduction'') (ledger_transactions bc') =
             filter (\<lambda>tx. SenderID tx = w \<and> Type tx = ''zakat_deduction'') (ledger_transactions bc)
         | Err e \<Rightarrow> False
         | Panic p \<Rightarrow> Chain bc = [] \<or> (\<exists>v\<in>set visits. length (WalletID (wallet v)) < 16)"
proof (cases "zakat_loop L now visits (bc, zs)")
  case (Err e)
  with zakat_loop_no_Err show ?thesis by blast
next
  case (Panic p)
  from zakat_loop_Panic[OF this] Panic show ?thesis
    by (simp add: ProcessMonthlyZakat_def)
next
  case (Ok st)
  obtain bc1 zs1 where st: "st = (bc1, zs1)" by (cases st)
  from zakat_loop_untouched[OF assms Ok[unfolded st]]
  obtain new where u: "Chain bc1 = Chain bc" "lastProcessed zs1 w = lastProcessed zs w"
    "Pending bc1 = Pending bc @ new"
    "list_all (\<lambda>tx. SenderID tx \<noteq> w \<and> Type tx = ''zakat_deduction'') new"
    by (auto simp: untouched_def)
  have f: "filter (levy_of w) (Pending bc1) = filter (levy_of w) (Pending bc)"
    using u(3) filter_untouched[OF u(4)] by simp
  show ?thesis
  proof (cases "Pending bc1 = []")
    case True
    then have "ProcessMonthlyZakat L now mineTime visits (bc, zs) = Ok (bc1, zs1)"
      by (simp add: ProcessMonthlyZakat_def Ok st GetPending_def)
    moreover have "filter (levy_of w) (ledger_transactions bc1) =
                   filter (levy_of w) (ledger_transactions bc)"
      using f u(1) by (simp add: ledger_transactions_def)
    ultimately show ?thesis using u(2) by simp
  next
    case False
    note pending = False
    show ?thesis
    proof (cases "Chain bc1 = []")
      case True
      then have "ProcessMonthlyZakat L now mineTime visits (bc, zs) = Panic IndexOutOfRange"
        using pending by (simp add: ProcessMonthlyZakat_def Ok st GetPending_def Mine_def)
      with True u(1) show ?thesis by simp
    next
      case False
      let ?b = "mined_block mineTime 0 ''ZAKAT_POOL'' bc1"
      let ?bc' = "bc1\<lparr>Chain := Chain bc1 @ [?b],
                    UTXOs := foldl commit_tx (UTXOs bc1) (Transactions ?b), Pending := []\<rparr>"
      have r: "ProcessMonthlyZakat L now mineTime visits (bc, zs) = Ok (?bc', zs1)"
        using pending by (simp add: ProcessMonthlyZakat_def Ok st GetPending_def Mine_Ok[OF False])
      have "ledger_transactions ?bc' =
            concat (map Transactions (Chain bc)) @
              coinbase (int (length (Chain bc1))) mineTime ''ZAKAT_POOL'' # Pending bc1"
        by (simp add: ledger_transactions_def mined_block_frame u(1))
      moreover have "\<not> levy_of w (coinbase (int (length (Chain bc1))) mineTime ''ZAKAT_POOL'')"
        by (simp add: coinbase_def)
      ultimately have "filter (levy_of w) (ledger_transactions ?bc') =
                   filter (levy_of w) (ledger_transactions bc)"
        using f by (simp add: ledger_transactions_def)
      with r u(2) show ?thesis by simp
    qed
  qed
qed

theorem levy_skips_below_threshold_witness:
  "GetBalance (range_balance (visit_W [''t0:0''])) (ledger_with [400]) wallet_W = 400 \<and>
   nisabThreshold NewZakatService = 500 \<and>
   ProcessMonthlyZakat example_lib 0 0 [visit_W [''t0:0'']] (ledger_with [400], NewZakatService) =
     Ok (ledger_with [400], NewZakatService) \<and>
   (\<exists>bc' zs'. ProcessMonthlyZakat example_lib 0 0 [visit_W [''t0:0'']]
                (ledger_with [400], NewZakatService) = Ok (bc', zs') \<and>
      lastProcessed zs' wallet_W = lastProcessed NewZakatService wallet_W)"
proof -
  let ?v = "visit_W [''t0:0'']"
  have bal: "GetBalance (range_balance ?v) (ledger_with [400]) wallet_W = 400"
    by (simp add: GetBalance_def range_values_def visit_W_def ledger_with_400)
  have thr: "nisabThreshold NewZakatService = 500"
    by (simp add: NewZakatService_def ZakatNisab_def)
  have w: "WalletID (wallet ?v) = wallet_W"
    by (simp add: visit_W_def wallet_named_def)
  have "\<not> skipped example_lib 0 NewZakatService (WalletID (wallet ?v))"
    by (simp add: skipped_def w wallet_W_not_system NewZakatService_def)
  from process_wallet_visited[OF this, of "ledger_with [400]"]
  have step: "process_wallet example_lib 0 (ledger_with [400], NewZakatService) ?v =
      Ok (ledger_with [400], NewZakatService)"
    by (simp add: w bal thr log_id16_def wallet_W_length)
  have p: "Pending (ledger_with [400]) = []"
    by (simp add: ledger_with_def)
  have run: "ProcessMonthlyZakat example_lib 0 0 [?v] (ledger_with [400], NewZakatService) =
      Ok (ledger_with [400], NewZakatService)"
    by (simp add: ProcessMonthlyZakat_def step GetPending_def p)
  have hyp: "\<forall>v\<in>set [?v]. WalletID (wallet v) = wallet_W \<longrightarrow>
      GetBalance (range_balance v) (ledger_with [400]) wallet_W < nisabThreshold NewZakatService"
    by (simp add: bal thr)
  from levy_skips_below_threshold[OF hyp, of example_lib 0 0] run
  have "lastProcessed NewZakatService wallet_W = lastProcessed NewZakatService wallet_W \<and>
     (\<exists>bc' zs'. ProcessMonthlyZakat example_lib 0 0 [?v] (ledger_with [400], NewZakatService) = Ok (bc', zs') \<and>
      lastProcessed zs' wallet_W = lastProcessed NewZakatService wallet_W)"
    by simp
  with bal thr run show ?thesis by blast
qed

subsection \<open>Claim C10: the faucet\<close>

text \<open>
  C10, as stated, fails when the faucet is called twice for one wallet within one second: the
  key of the UTXO is made of the wallet id and the time in seconds, so the second call
  overwrites the first UTXO and the balance stays at 1000.
\<close>

theorem faucet_same_second_counterexample:
  "reachable faucet_once \<and> reachable faucet_twice \<and>
   iteration_order (UTXOs faucet_once) [''faucet-A-0:0''] \<and>
   iteration_order (UTXOs faucet_twice) [''faucet-A-0:0''] \<and>
   GetBalance [''faucet-A-0:0''] faucet_once ''A'' = 1000 \<and>
   GetBalance [''faucet-A-0:0''] faucet_twice ''A'' = 1000"
proof -
  have r1: "reachable faucet_once"
    unfolding faucet_once_def by (rule reach_faucet) (rule reach_new)
  have r2: "reachable faucet_twice"
    unfolding faucet_twice_def by (rule reach_faucet) (rule r1)
  have u1: "UTXOs faucet_once = [''faucet-A-0:0'' \<mapsto>
      \<lparr>ID_utxo = ''faucet-A-0:0'', Owner = ''A'', Amount_utxo = 1000, OriginTx = ''faucet-A-0'',
       Index_utxo = 0, Spent = False\<rparr>]"
    by (simp add: faucet_once_def CreateFaucetUTXO_def NewBlockchain_def fmt_d_0 FaucetAmount_def Let_def)
  have u2: "UTXOs faucet_twice = UTXOs faucet_once"
    by (simp add: faucet_twice_def CreateFaucetUTXO_def fmt_d_0 FaucetAmount_def u1 Let_def)
  have b1: "GetBalance [''faucet-A-0:0''] faucet_once ''A'' = 1000"
    by (simp add: GetBalance_def range_values_def u1)
  have b2: "GetBalance [''faucet-A-0:0''] faucet_twice ''A'' = 1000"
    by (simp add: GetBalance_def range_values_def u2 u1)
  have "iteration_order (UTXOs faucet_once) [''faucet-A-0:0'']"
    by (simp add: iteration_order_def u1)
  with r1 r2 b1 b2 u2 show ?thesis by simp
qed

text \<open>
  C10, amended.  \<open>CreateFaucetUTXO\<close> stores an unspent UTXO of amount 1000 owned by the wallet
  under the key \<open>faucet-<walletID>-<seconds>:0\<close>, replacing what the map held there; chain,
  pending pool and difficulty are unchanged, no transaction is made and no input is consumed.
  When the key was not in the map, the balance of the wallet grows by 1000 (as a 64-bit
  value: by exactly 1000 when that does not pass \<open>2^64\<close>).  When the key was in the map, the
  UTXO stored there is replaced: if it was an unspent output of the wallet, the balance grows
  by 1000 less its amount, so the balance stays as it is when that amount was 1000; if it was
  spent or owned by another wallet, the balance grows by 1000.  The balance of every other
  wallet stays as it is, except that a wallet that owned the replaced UTXO unspent loses its
  amount.  Balances are 64-bit sums.  After wallet \<open>A\<close> has spent its first faucet output, a
  faucet call in the same second takes its balance from 400 to 1400.
\<close>

theorem CreateFaucetUTXO_effect:
  assumes call: "CreateFaucetUTXO now walletID bc = (u, bc')"
    and ks: "iteration_order (UTXOs bc) ks"
    and ks': "iteration_order (UTXOs bc') ks'"
  shows "Chain bc' = Chain bc \<and> Pending bc' = Pending bc \<and> DifficultyPref bc' = DifficultyPref bc \<and>
         UTXOs bc' = (UTXOs bc)(ID_utxo u \<mapsto> u) \<and>
         ID_utxo u = ''faucet-'' @ walletID @ ''-'' @ fmt_d now @ '':0'' \<and>
         Owner u = walletID \<and> Amount_utxo u = 1000 \<and> \<not> Spent u \<and>
         (ID_utxo u \<notin> dom (UTXOs bc) \<longrightarrow>
            GetBalance ks' bc' walletID = GetBalance ks bc walletID + 1000 \<and>
            (unat (GetBalance ks bc walletID) + 1000 < 2 ^ 64 \<longrightarrow>
               unat (GetBalance ks' bc' walletID) = unat (GetBalance ks bc walletID) + 1000)) \<and>
         (\<forall>old. UTXOs bc (ID_utxo u) = Some old \<longrightarrow>
            (Owner old = walletID \<and> \<not> Spent old \<longrightarrow>
               GetBalance ks' bc' walletID = GetBalance ks bc walletID - Amount_utxo old + 1000 \<and>
               (Amount_utxo old = 1000 \<longrightarrow>
                  GetBalance ks' bc' walletID = GetBalance ks bc walletID)) \<and>
            (Owner old \<noteq> walletID \<or> Spent old \<longrightarrow>
               GetBalance ks' bc' walletID = GetBalance ks bc walletID + 1000 \<and>
               (unat (GetBalance ks bc walletID) + 1000 < 2 ^ 64 \<longrightarrow>
                  unat (GetBalance ks' bc' walletID) = unat (GetBalance ks bc walletID) + 1000))) \<and>
         (\<forall>w. w \<noteq> walletID \<longrightarrow>
            GetBalance ks' bc' w =
              GetBalance ks bc w -
                (case UTXOs bc (ID_utxo u) of
                   None \<Rightarrow> 0
                 | Some old \<Rightarrow> if Owner old = w \<and> \<not> Spent old then Amount_utxo old else 0))"
proof -
  let ?k = "''faucet-'' @ walletID @ ''-'' @ fmt_d now @ '':0''"
  from call have u: "u = \<lparr>ID_utxo = ?k, Owner = walletID, Amount_utxo = FaucetAmount,
      OriginTx = ''faucet-'' @ walletID @ ''-'' @ fmt_d now, Index_utxo = 0, Spent = False\<rparr>"
    and bc': "bc' = bc\<lparr>UTXOs := (UTXOs bc)(?k \<mapsto> u)\<rparr>"
    by (auto simp: CreateFaucetUTXO_def Let_def)
  have frame: "Chain bc' = Chain bc \<and> Pending bc' = Pending bc \<and>
         DifficultyPref bc' = DifficultyPref bc \<and>
         UTXOs bc' = (UTXOs bc)(ID_utxo u \<mapsto> u) \<and> ID_utxo u = ?k \<and>
         Owner u = walletID \<and> Amount_utxo u = 1000 \<and> \<not> Spent u"
    by (simp add: u bc' FaucetAmount_def)
  have new: "balance_term walletID (Some u) = 1000"
    using frame by (simp add: balance_term_def)
  have "iteration_order ((UTXOs bc)(ID_utxo u \<mapsto> u)) ks'"
    using ks' frame by simp
  from GetBalance_replaced[OF ks this refl, of bc' walletID] frame
  have bal: "GetBalance ks' bc' walletID =
      GetBalance ks bc walletID - balance_term walletID (UTXOs bc (ID_utxo u)) + 1000"
    by (simp add: new)
  have exact: "unat (GetBalance ks' bc' walletID) = unat (GetBalance ks bc walletID) + 1000"
    if "GetBalance ks' bc' walletID = GetBalance ks bc walletID + 1000"
      "unat (GetBalance ks bc walletID) + 1000 < 2 ^ 64"
    using that by (simp add: unat_word_ariths)
  have fresh: "GetBalance ks' bc' walletID = GetBalance ks bc walletID + 1000"
    if "ID_utxo u \<notin> dom (UTXOs bc)"
  proof -
    from that have "UTXOs bc (ID_utxo u) = None" by auto
    with bal show ?thesis by (simp add: balance_term_def)
  qed
  have own: "GetBalance ks' bc' walletID = GetBalance ks bc walletID - Amount_utxo old + 1000"
    if "UTXOs bc (ID_utxo u) = Some old" "Owner old = walletID \<and> \<not> Spent old" for old
    using bal that by (simp add: balance_term_def)
  have same: "GetBalance ks' bc' walletID = GetBalance ks bc walletID"
    if "UTXOs bc (ID_utxo u) = Some old" "Owner old = walletID \<and> \<not> Spent old"
      "Amount_utxo old = 1000" for old
    using own[OF that(1,2)] that(3) by simp
  have other: "GetBalance ks' bc' walletID = GetBalance ks bc walletID + 1000"
    if "UTXOs bc (ID_utxo u) = Some old" "Owner old \<noteq> walletID \<or> Spent old" for old
    using bal that by (auto simp: balance_term_def)
  have others: "GetBalance ks' bc' w =
      GetBalance ks bc w -
        (case UTXOs bc (ID_utxo u) of
           None \<Rightarrow> 0
         | Some old \<Rightarrow> if Owner old = w \<and> \<not> Spent old then Amount_utxo old else 0)"
    if "w \<noteq> walletID" for w
  proof -
    have "balance_term w (Some u) = 0"
      using frame that by (simp add: balance_term_def)
    with GetBalance_replaced[OF ks \<open>iteration_order ((UTXOs bc)(ID_utxo u \<mapsto> u)) ks'\<close> refl, of bc' w]
      frame
    show ?thesis by (simp add: balance_term_def)
  qed
  from frame fresh exact own same other others show ?thesis by blast
qed


theorem CreateFaucetUTXO_effect_witness:
  "CreateFaucetUTXO 0 ''A'' (NewBlockchain 0) =
     (fst (CreateFaucetUTXO 0 ''A'' (NewBlockchain 0)), faucet_once) \<and>
   iteration_order (UTXOs (NewBlockchain 0)) [] \<and>
   iteration_order (UTXOs faucet_once) [''faucet-A-0:0''] \<and>
   ID_utxo (fst (CreateFaucetUTXO 0 ''A'' (NewBlockchain 0))) \<notin> dom (UTXOs (NewBlockchain 0)) \<and>
   unat (GetBalance [] (NewBlockchain 0) ''A'') + 1000 < 2 ^ 64 \<and>
   Chain faucet_once = Chain (NewBlockchain 0) \<and>
   Pending faucet_once = Pending (NewBlockchain 0) \<and>
   unat (GetBalance [''faucet-A-0:0''] faucet_once ''A'') =
     unat (GetBalance [] (NewBlockchain 0) ''A'') + 1000 \<and>
   reachable spent_faucet_ledger \<and>
   iteration_order (UTXOs spent_faucet_ledger) spent_faucet_keys \<and>
   iteration_order (UTXOs (snd (CreateFaucetUTXO 0 ''A'' spent_faucet_ledger))) spent_faucet_keys \<and>
   UTXOs spent_faucet_ledger ''faucet-A-0:0'' =
     Some \<lparr>ID_utxo = ''faucet-A-0:0'', Owner = ''A'', Amount_utxo = 1000, OriginTx = ''faucet-A-0'',
           Index_utxo = 0, Spent = True\<rparr> \<and>
   GetBalance spent_faucet_keys spent_faucet_ledger ''A'' = 400 \<and>
   GetBalance spent_faucet_keys (snd (CreateFaucetUTXO 0 ''A'' spent_faucet_ledger)) ''A'' = 1400"
proof -
  let ?u = "fst (CreateFaucetUTXO 0 ''A'' (NewBlockchain 0))"
  have call: "CreateFaucetUTXO 0 ''A'' (NewBlockchain 0) = (?u, faucet_once)"
    by (simp add: faucet_once_def)
  have k0: "iteration_order (UTXOs (NewBlockchain 0)) []"
    by (simp add: iteration_order_def NewBlockchain_def)
  have k1: "iteration_order (UTXOs faucet_once) [''faucet-A-0:0'']"
    by (simp add: iteration_order_def faucet_once_def CreateFaucetUTXO_def NewBlockchain_def
          fmt_d_0 Let_def)
  have fresh: "ID_utxo ?u \<notin> dom (UTXOs (NewBlockchain 0))"
    by (simp add: NewBlockchain_def)
  have small: "unat (GetBalance [] (NewBlockchain 0) ''A'') + 1000 < 2 ^ 64"
    by (simp add: GetBalance_def range_values_def)
  note eff = CreateFaucetUTXO_effect[OF call k0 k1]
  from eff have frame: "Chain faucet_once = Chain (NewBlockchain 0)"
    "Pending faucet_once = Pending (NewBlockchain 0)"
    by blast+
  from eff fresh small
  have first: "unat (GetBalance [''faucet-A-0:0''] faucet_once ''A'') =
     unat (GetBalance [] (NewBlockchain 0) ''A'') + 1000"
    by blast
  let ?v = "fst (CreateFaucetUTXO 0 ''A'' spent_faucet_ledger)"
  let ?bc = "snd (CreateFaucetUTXO 0 ''A'' spent_faucet_ledger)"
  have call2: "CreateFaucetUTXO 0 ''A'' spent_faucet_ledger = (?v, ?bc)"
    by simp
  have id: "ID_utxo ?v = ''faucet-A-0:0''"
    by (simp add: CreateFaucetUTXO_def fmt_d_0 Let_def)
  have "UTXOs ?bc = (UTXOs spent_faucet_ledger)(''faucet-A-0:0'' \<mapsto> ?v)"
    by (simp add: CreateFaucetUTXO_def fmt_d_0 Let_def)
  moreover have "''faucet-A-0:0'' \<in> dom (UTXOs spent_faucet_ledger)"
    by (simp add: spent_faucet_old dom_def)
  ultimately have "dom (UTXOs ?bc) = dom (UTXOs spent_faucet_ledger)"
    by auto
  with spent_faucet_order have k2: "iteration_order (UTXOs ?bc) spent_faucet_keys"
    by (simp add: iteration_order_def)
  have b0: "GetBalance spent_faucet_keys spent_faucet_ledger ''A'' = 400"
    by (simp add: GetBalance_def spent_faucet_values)
  note eff2 = CreateFaucetUTXO_effect[OF call2 spent_faucet_order k2]
  from eff2 spent_faucet_old
  have "GetBalance spent_faucet_keys ?bc ''A'' =
      GetBalance spent_faucet_keys spent_faucet_ledger ''A'' + 1000"
    unfolding id by simp
  then have b1: "GetBalance spent_faucet_keys ?bc ''A'' = 1400"
    by (simp add: b0)
  from call k0 k1 fresh small frame first spent_faucet_reachable spent_faucet_order k2
    spent_faucet_old b0 b1
  show ?thesis by blast
qed

end
